theory Spec2Isabelle
  imports Complex_Main
begin

section \<open>Values and exceptions\<close>

text \<open>
  The pipeline of \<^verbatim>\<open>backend/routes/heart_rate_data.py\<close> computes on numpy
  \<^verbatim>\<open>float64\<close> arrays. Samples are modelled as real numbers, so rounding and
  overflow are outside the model. The two non-numbers that the numeric library hands
  back instead of raising are kept as values of their own: the mean of an empty array
  is \<open>NaN\<close>, and a numpy division of a non-zero number by zero is an infinity (its sign
  is not tracked). A Python exception is the left injection of a sum.
\<close>

datatype error = ValueError | ZeroDivisionError | IndexError | LinAlgError | ExternalError

datatype npfloat = Num real | Infty | NaN

section \<open>numpy reductions used by the HRV calculator\<close>

text \<open>\<^verbatim>\<open>np.mean\<close>: the mean of an empty array is \<open>nan\<close> (a warning, no exception).\<close>

definition np_mean :: "real list \<Rightarrow> npfloat" where
  "np_mean xs = (if xs = [] then NaN else Num (sum_list xs / real (length xs)))"

text \<open>
  \<^verbatim>\<open>np.sqrt\<close>. It is applied to means only, which are never infinite; the root of a
  negative number is \<open>nan\<close>.
\<close>

fun np_sqrt :: "npfloat \<Rightarrow> npfloat" where
  "np_sqrt (Num r) = (if r < 0 then NaN else Num (sqrt r))"
| "np_sqrt Infty = Infty"
| "np_sqrt NaN = NaN"

text \<open>\<^verbatim>\<open>np.std\<close> with its default \<^verbatim>\<open>ddof=0\<close>: \<^verbatim>\<open>sqrt(mean(abs(x - x.mean())**2))\<close>.\<close>

definition np_std :: "real list \<Rightarrow> npfloat" where
  "np_std xs =
     (case np_mean xs of
        Num m \<Rightarrow> np_sqrt (np_mean (map (\<lambda>v. \<bar>v - m\<bar> ^ 2) xs))
      | other \<Rightarrow> other)"

text \<open>\<^verbatim>\<open>np.diff\<close>: \<^verbatim>\<open>x[1:] - x[:-1]\<close>.\<close>

fun np_diff :: "real list \<Rightarrow> real list" where
  "np_diff (u # v # vs) = (v - u) # np_diff (v # vs)"
| "np_diff vs = []"

text \<open>A numpy division \<^verbatim>\<open>c / v\<close> of a Python float by a \<^verbatim>\<open>float64\<close>: no exception.\<close>

fun np_rdiv :: "real \<Rightarrow> npfloat \<Rightarrow> npfloat" where
  "np_rdiv c (Num v) = (if v = 0 then (if c = 0 then NaN else Infty) else Num (c / v))"
| "np_rdiv c Infty = Num 0"
| "np_rdiv c NaN = NaN"

text \<open>Python's \<^verbatim>\<open>int(x)\<close> of a float: truncation towards zero.\<close>

definition py_int :: "real \<Rightarrow> int" where
  "py_int v = (if 0 \<le> v then \<lfloor>v\<rfloor> else \<lceil>v\<rceil>)"

text \<open>
  Python's \<^verbatim>\<open>min\<close> and \<^verbatim>\<open>max\<close> of a non-empty sequence; on an empty one they raise
  \<^verbatim>\<open>ValueError\<close>, which the caller below writes out.
\<close>

definition py_min :: "real list \<Rightarrow> real" where
  "py_min xs = fold min (tl xs) (hd xs)"

definition py_max :: "real list \<Rightarrow> real" where
  "py_max xs = fold max (tl xs) (hd xs)"

section \<open>Peak detection: \<^verbatim>\<open>scipy.signal.find_peaks(x, height=h)\<close>\<close>

text \<open>
  \<^verbatim>\<open>find_peaks\<close> belongs to the signal library, not to the repository. It is modelled
  after the library's local-maximum search: the scan starts at index 1 and stops before
  the last index; on a rising edge at \<open>i\<close> it looks ahead over the samples equal to
  \<open>x[i]\<close>; when the first different sample is lower, the flat run \<open>i .. i_ahead - 1\<close>
  is a peak, reported at its middle index (rounded down), and the scan continues behind
  the run. With \<^verbatim>\<open>height=h\<close> the peaks \<open>p\<close> with \<open>h \<le> x[p]\<close> are kept.
\<close>

text \<open>\<^verbatim>\<open>while i_ahead < i_max and x[i_ahead] == x[i]: i_ahead += 1\<close>\<close>

function skip_equal :: "real list \<Rightarrow> nat \<Rightarrow> nat \<Rightarrow> nat" where
  "skip_equal x i i_ahead =
     (if i_ahead < length x - 1 \<and> x ! i_ahead = x ! i
      then skip_equal x i (i_ahead + 1) else i_ahead)"
  by pat_completeness auto
termination
  by (relation "measure (\<lambda>(x, i, i_ahead). length x - i_ahead)") auto

declare skip_equal.simps [simp del]

lemma skip_equal_ge: "i_ahead \<le> skip_equal x i i_ahead"
proof (induction x i i_ahead rule: skip_equal.induct)
  case (1 x i i_ahead)
  show ?case
  proof (cases "i_ahead < length x - 1 \<and> x ! i_ahead = x ! i")
    case True
    with 1 have "i_ahead + 1 \<le> skip_equal x i (i_ahead + 1)" by simp
    moreover from True have "skip_equal x i i_ahead = skip_equal x i (i_ahead + 1)"
      by (subst skip_equal.simps) simp
    ultimately show ?thesis by simp
  next
    case False
    then have "skip_equal x i i_ahead = i_ahead"
      by (subst skip_equal.simps) auto
    then show ?thesis by simp
  qed
qed

text \<open>
  The outer loop of the search, from the current index \<open>i\<close>:
  \<^verbatim>\<open>while i < i_max: if x[i-1] < x[i]: ...; i += 1\<close>.
\<close>

function local_maxima_from :: "real list \<Rightarrow> nat \<Rightarrow> nat list" where
  "local_maxima_from x i =
     (if i < length x - 1
      then if x ! (i - 1) < x ! i
           then let i_ahead = skip_equal x i (i + 1)
                in if x ! i_ahead < x ! i
                   then ((i + (i_ahead - 1)) div 2) # local_maxima_from x (i_ahead + 1)
                   else local_maxima_from x (i + 1)
           else local_maxima_from x (i + 1)
      else [])"
  by pat_completeness auto
termination
proof (relation "measure (\<lambda>(x, i). length x - i)")
  show "wf (measure (\<lambda>(x, i). length x - i))" by simp
next
  fix x :: "real list" and i i_ahead :: nat
  assume "i < length x - 1" and ia: "i_ahead = skip_equal x i (i + 1)"
  then have "i + 1 \<le> i_ahead" using skip_equal_ge [of "i + 1" x i] by simp
  with \<open>i < length x - 1\<close>
  show "((x, i_ahead + 1), (x, i)) \<in> measure (\<lambda>(x, i). length x - i)" by simp
qed auto

declare local_maxima_from.simps [simp del]

definition local_maxima_1d :: "real list \<Rightarrow> nat list" where
  "local_maxima_1d x = local_maxima_from x 1"

definition find_peaks :: "real list \<Rightarrow> real \<Rightarrow> nat list" where
  "find_peaks x height = filter (\<lambda>p. height \<le> x ! p) (local_maxima_1d x)"

section \<open>Filtering: \<^verbatim>\<open>scipy.signal.filtfilt\<close>, \<^verbatim>\<open>convolve\<close> and the Butterworth design\<close>

text \<open>
  The Butterworth design routine \<^verbatim>\<open>butter(order, Wn, btype=..., analog=False)\<close> of the
  signal library computes its coefficients with trigonometric functions in floating
  point. It is a parameter: it takes the order, the normalised cut-off and the band type
  and raises or returns the numerator and the denominator of the filter.
\<close>

datatype btype = High | Low

type_synonym butter_design = "nat \<Rightarrow> real \<Rightarrow> btype \<Rightarrow> error + (real list \<times> real list)"

text \<open>
  Lines 24 to 35. \<^verbatim>\<open>cutoff / nyq\<close> divides Python numbers and raises
  \<^verbatim>\<open>ZeroDivisionError\<close> when the sampling rate is 0.
\<close>

definition butter_highpass ::
  "butter_design \<Rightarrow> real \<Rightarrow> real \<Rightarrow> nat \<Rightarrow> error + (real list \<times> real list)" where
  "butter_highpass butter cutoff fs order =
     (let nyq = 0.5 * fs
      in if nyq = 0 then Inl ZeroDivisionError
         else let normal_cutoff = cutoff / nyq in butter order normal_cutoff High)"

definition butter_lowpass ::
  "butter_design \<Rightarrow> real \<Rightarrow> real \<Rightarrow> nat \<Rightarrow> error + (real list \<times> real list)" where
  "butter_lowpass butter cutoff fs order =
     (let nyq = 0.5 * fs
      in if nyq = 0 then Inl ZeroDivisionError
         else let normal_cutoff = cutoff / nyq in butter order normal_cutoff Low)"

text \<open>
  \<^verbatim>\<open>filtfilt(b, a, x)\<close> with its defaults (odd padding of \<open>3 * max(len(a), len(b))\<close>
  samples at each end) is library code, modelled over the reals in the steps the library
  takes. The coefficient vectors are divided by \<open>a[0]\<close> and padded with zeros to a
  common length \<open>n\<close>.
\<close>

definition normalised :: "nat \<Rightarrow> real \<Rightarrow> real list \<Rightarrow> real list" where
  "normalised n a0 c = map (\<lambda>v. v / a0) c @ replicate (n - length c) 0"

text \<open>
  \<^verbatim>\<open>odd_ext(x, n)\<close>: the signal, extended at each end by \<open>n\<close> samples mirrored in the
  end point: \<^verbatim>\<open>2 * x[0] - x[n:0:-1]\<close> in front and \<^verbatim>\<open>2 * x[-1] - x[-2:-(n+2):-1]\<close>
  behind. It is called with \<open>n < len(x)\<close> only.
\<close>

definition odd_ext :: "real list \<Rightarrow> nat \<Rightarrow> real list" where
  "odd_ext x n =
     (if n < 1 then x
      else map (\<lambda>v. 2 * hd x - v) (rev (take n (tl x))) @ x @
           map (\<lambda>v. 2 * last x - v) (take n (tl (rev x))))"

text \<open>
  One pass of the filter in transposed direct form II, from the state \<open>z\<close>
  (\<open>n - 1\<close> values): \<open>y = b[0] x + z[0]\<close>, then
  \<open>z[i] = b[i+1] x - a[i+1] y + z[i+1]\<close>, with 0 behind the last state value.
\<close>

fun df2t :: "real list \<Rightarrow> real list \<Rightarrow> real list \<Rightarrow> real list \<Rightarrow> real list" where
  "df2t b a z [] = []"
| "df2t b a z (x # xs) =
     (let y = hd b * x + (if z = [] then 0 else hd z);
          z' = map (\<lambda>i. b ! (i + 1) * x - a ! (i + 1) * y
                          + (if i + 1 < length z then z ! (i + 1) else 0))
                   [0..<length z]
      in y # df2t b a z' xs)"

definition lfilter :: "real list \<Rightarrow> real list \<Rightarrow> real list \<Rightarrow> real list \<Rightarrow> real list" where
  "lfilter b a x zi =
     (let n = max (length a) (length b)
      in df2t (normalised n (hd a) b) (normalised n (hd a) a) zi x)"

text \<open>
  \<^verbatim>\<open>lfilter_zi(b, a)\<close>: the state of the filter in the steady state of its step
  response. The library builds the companion matrix of \<open>a\<close>, which needs \<open>n \<ge> 2\<close>
  (\<^verbatim>\<open>ValueError\<close> otherwise), and solves \<open>zi = A zi + B\<close>; the system is singular
  (\<^verbatim>\<open>LinAlgError\<close>) when the normalised denominator sums to 0, and otherwise its solution
  is \<open>zi[i] = \<Sum>k>i. (b[k] - a[k] g)\<close> with the gain \<open>g = \<Sum>b / \<Sum>a\<close>.
\<close>

definition lfilter_zi :: "real list \<Rightarrow> real list \<Rightarrow> error + real list" where
  "lfilter_zi b a =
     (let n = max (length a) (length b);
          bn = normalised n (hd a) b;
          an = normalised n (hd a) a
      in if n < 2 then Inl ValueError
         else if sum_list an = 0 then Inl LinAlgError
         else let g = sum_list bn / sum_list an
              in Inr (map (\<lambda>i. \<Sum>k \<leftarrow> [i + 1..<n]. bn ! k - an ! k * g) [0..<n - 1]))"

text \<open>
  The length check comes first: a signal of at most \<open>edge\<close> samples raises
  \<^verbatim>\<open>ValueError\<close>. A denominator that is empty or starts with 0 makes the library raise
  too (the Butterworth design never returns one); the model reports \<^verbatim>\<open>ValueError\<close>.
  The result is \<^verbatim>\<open>y[edge:-edge]\<close> of the backward pass, reversed.
\<close>

definition filtfilt :: "real list \<Rightarrow> real list \<Rightarrow> real list \<Rightarrow> error + real list" where
  "filtfilt b a x =
     (let edge = 3 * max (length a) (length b)
      in if length x \<le> edge then Inl ValueError
         else if a = [] \<or> hd a = 0 then Inl ValueError
         else case lfilter_zi b a of
                Inl e \<Rightarrow> Inl e
              | Inr zi \<Rightarrow>
                  let ext = odd_ext x edge;
                      y = lfilter b a ext (map (\<lambda>z. z * hd ext) zi);
                      y' = rev (lfilter b a (rev y) (map (\<lambda>z. z * last y) zi))
                  in Inr (take (length y' - 2 * edge) (drop edge y')))"

text \<open>
  \<^verbatim>\<open>convolve(in1, in2)\<close> of two one-dimensional arrays, mode \<^verbatim>\<open>full\<close>: the
  \<open>len(in1) + len(in2) - 1\<close> sums of products; an empty array raises \<^verbatim>\<open>ValueError\<close>.
\<close>

definition convolve :: "real list \<Rightarrow> real list \<Rightarrow> error + real list" where
  "convolve in1 in2 =
     (if in1 = [] \<or> in2 = [] then Inl ValueError
      else Inr (map (\<lambda>n. \<Sum>k \<leftarrow> [0..<length in2].
                            if k \<le> n \<and> n - k < length in1 then in1 ! (n - k) * in2 ! k else 0)
                    [0..<length in1 + length in2 - 1]))"

section \<open>\<^verbatim>\<open>filter_all\<close> and \<^verbatim>\<open>process_signal\<close>\<close>

definition filter_all ::
  "butter_design \<Rightarrow> real list \<Rightarrow> real \<Rightarrow> nat \<Rightarrow> real \<Rightarrow> real \<Rightarrow> error + real list" where
  "filter_all butter data fs order cutoff_high cutoff_low =
     (case butter_highpass butter cutoff_high fs order of
        Inl e \<Rightarrow> Inl e
      | Inr (b, a) \<Rightarrow>
          (case filtfilt b a data of
             Inl e \<Rightarrow> Inl e
           | Inr highpassed_signal \<Rightarrow>
               (case butter_lowpass butter cutoff_low fs order of
                  Inl e \<Rightarrow> Inl e
                | Inr (d, c) \<Rightarrow> filtfilt d c highpassed_signal)))"

text \<open>
  Lines 46 to 53. \<^verbatim>\<open>np.ones(average_filter_sample_length) / average_filter_sample_length\<close>
  is the window; the window length is a \<open>nat\<close>. The result of \<^verbatim>\<open>convolve\<close> is assigned
  to \<^verbatim>\<open>averaged_signal\<close> and overwritten on the next line.
\<close>

definition process_signal ::
  "butter_design \<Rightarrow> real list \<Rightarrow> nat \<Rightarrow> real \<Rightarrow> real \<Rightarrow> real \<Rightarrow> nat \<Rightarrow> error + real list" where
  "process_signal butter y order_of_bandpass high low sampling_rate
       average_filter_sample_length =
     (case filter_all butter y sampling_rate order_of_bandpass high low of
        Inl e \<Rightarrow> Inl e
      | Inr filtered_signal \<Rightarrow>
          let squared_signal = map (\<lambda>v. v ^ 2) filtered_signal;
              b = map (\<lambda>v. v / real average_filter_sample_length)
                    (replicate average_filter_sample_length 1);
              a = [1]
          in (case convolve squared_signal b of
                Inl e \<Rightarrow> Inl e
              | Inr averaged_signal \<Rightarrow> filtfilt b a squared_signal))"

text \<open>
  The simplified version that the specification asks for: the same function without the
  causal convolution.
\<close>

definition process_signal_simplified ::
  "butter_design \<Rightarrow> real list \<Rightarrow> nat \<Rightarrow> real \<Rightarrow> real \<Rightarrow> real \<Rightarrow> nat \<Rightarrow> error + real list" where
  "process_signal_simplified butter y order_of_bandpass high low sampling_rate
       average_filter_sample_length =
     (case filter_all butter y sampling_rate order_of_bandpass high low of
        Inl e \<Rightarrow> Inl e
      | Inr filtered_signal \<Rightarrow>
          let squared_signal = map (\<lambda>v. v ^ 2) filtered_signal;
              b = map (\<lambda>v. v / real average_filter_sample_length)
                    (replicate average_filter_sample_length 1);
              a = [1]
          in filtfilt b a squared_signal)"

section \<open>\<^verbatim>\<open>calculate_hrv\<close>\<close>

record hrv_metrics =
  SDNN :: npfloat
  RMSSD :: npfloat
  pNN50 :: npfloat

text \<open>
  \<^verbatim>\<open>nn50 = sum(np.abs(np.diff(rr_intervals_ms)) > 50)\<close> is Python's \<^verbatim>\<open>sum\<close>: over an
  empty array it is the Python integer 0, and \<^verbatim>\<open>nn50 / len(rr_intervals_ms)\<close> is then a
  division of Python integers, which raises \<^verbatim>\<open>ZeroDivisionError\<close> for \<open>0 / 0\<close>.
\<close>

definition calculate_hrv :: "real list \<Rightarrow> error + hrv_metrics" where
  "calculate_hrv rr_intervals =
     (let rr_intervals_ms = map (\<lambda>v. v * 1000) rr_intervals;
          sdnn = np_std rr_intervals_ms;
          rmssd = np_sqrt (np_mean (map (\<lambda>d. d ^ 2) (np_diff rr_intervals_ms)));
          nn50 = length (filter (\<lambda>d. \<bar>d\<bar> > 50) (np_diff rr_intervals_ms))
      in if length rr_intervals_ms = 0 then Inl ZeroDivisionError
         else Inr \<lparr>SDNN = sdnn, RMSSD = rmssd,
                   pNN50 = Num (real nn50 / real (length rr_intervals_ms) * 100)\<rparr>)"

section \<open>\<^verbatim>\<open>calculate_stress_score\<close>\<close>

text \<open>
  The external HRV capability \<^verbatim>\<open>nk.hrv\<close> is a parameter: it takes the pulse train and
  the sampling rate, and raises or returns a table of named metrics.
\<close>

type_synonym 'm hrv_capability = "real list \<Rightarrow> int \<Rightarrow> error + (string \<rightharpoonup> 'm)"

text \<open>
  Lines 69 and 70: \<^verbatim>\<open>np.zeros(peak_indices[-1] + 1)\<close>, then
  \<^verbatim>\<open>binary_peaks[peak_indices] = 1\<close>. Peak indices are array positions (\<open>nat\<close>); the last
  element of an empty array and a position behind the end raise \<^verbatim>\<open>IndexError\<close>.
\<close>

definition binary_peaks :: "nat list \<Rightarrow> error + real list" where
  "binary_peaks peak_indices =
     (if peak_indices = [] then Inl IndexError
      else let zeros = replicate (last peak_indices + 1) (0::real)
           in if \<forall>p \<in> set peak_indices. p < length zeros
              then Inr (fold (\<lambda>p b. b[p := 1]) peak_indices zeros)
              else Inl IndexError)"

definition calculate_stress_score ::
  "'m hrv_capability \<Rightarrow> nat list \<Rightarrow> int \<Rightarrow> error + 'm option" where
  "calculate_stress_score hrv peak_indices sampling_rate =
     (case binary_peaks peak_indices of
        Inl e \<Rightarrow> Inl e
      | Inr b \<Rightarrow>
          (case hrv b sampling_rate of
             Inl e \<Rightarrow> Inl e
           | Inr hrv_metrics \<Rightarrow> Inr (hrv_metrics ''HRV_SI'')))"

section \<open>\<^verbatim>\<open>give_bpm_and_hrv\<close>\<close>

record 'm bpm_hrv =
  BPM :: npfloat
  HRV :: hrv_metrics
  Stress_Score :: "'m option"

text \<open>Line 79: the height threshold of the peak detector.\<close>

definition r_min_peak :: "real list \<Rightarrow> real" where
  "r_min_peak averaged = py_min averaged + (py_max averaged - py_min averaged) / 16"

text \<open>
  Lines 88 to 91: the list comprehension over \<^verbatim>\<open>range(total_peaks - 1)\<close>. The indices
  are signed integers in the source, so the difference is taken in \<open>int\<close>.
\<close>

definition rr_intervals_of :: "nat list \<Rightarrow> real \<Rightarrow> real list" where
  "rr_intervals_of r_peaks time_bw_fram =
     map (\<lambda>i. real_of_int (int (r_peaks ! (i + 1)) - int (r_peaks ! i)) * time_bw_fram)
         [0..<length r_peaks - 1]"

text \<open>Lines 93 and 94.\<close>

definition bpm_of :: "real list \<Rightarrow> npfloat" where
  "bpm_of rr_intervals = np_rdiv 60 (np_mean rr_intervals)"

definition degenerate :: "'m bpm_hrv" where
  "degenerate = \<lparr>BPM = Num 0, HRV = \<lparr>SDNN = Num 0, RMSSD = Num 0, pNN50 = Num 0\<rparr>,
                 Stress_Score = None\<rparr>"

text \<open>
  \<^verbatim>\<open>min(averaged)\<close> raises \<^verbatim>\<open>ValueError\<close> on an empty array. \<^verbatim>\<open>1 / time_bw_fram\<close> on
  line 100 is a division of Python numbers and raises \<^verbatim>\<open>ZeroDivisionError\<close> for 0.
\<close>

definition give_bpm_and_hrv ::
  "'m hrv_capability \<Rightarrow> real list \<Rightarrow> real \<Rightarrow> error + 'm bpm_hrv" where
  "give_bpm_and_hrv hrv averaged time_bw_fram =
     (if averaged = [] then Inl ValueError
      else let r_peaks = find_peaks averaged (r_min_peak averaged);
               total_peaks = length r_peaks
           in if total_peaks \<le> 1 then Inr degenerate
              else let rr_intervals = rr_intervals_of r_peaks time_bw_fram;
                       bpm = bpm_of rr_intervals
                   in case calculate_hrv rr_intervals of
                        Inl e \<Rightarrow> Inl e
                      | Inr hrv_metrics \<Rightarrow>
                          if time_bw_fram = 0 then Inl ZeroDivisionError
                          else (case calculate_stress_score hrv r_peaks
                                       (py_int (1 / time_bw_fram)) of
                                  Inl e \<Rightarrow> Inl e
                                | Inr stress_score \<Rightarrow>
                                    Inr \<lparr>BPM = bpm, HRV = hrv_metrics,
                                         Stress_Score = stress_score\<rparr>))"

section \<open>The request handler \<^verbatim>\<open>get_beats_per_min\<close>\<close>

text \<open>
  What the video library reports about a source: whether it can be opened, the two
  properties read on lines 116 and 117, and the frames that \<^verbatim>\<open>read()\<close> delivers until
  it returns \<^verbatim>\<open>ret = False\<close>. A frame is a grid of pixels with the channels in the
  order blue, green, red. The handler opens the source twice, on lines 112 and 115; both
  are the same source.
\<close>

type_synonym pixel = "nat \<times> nat \<times> nat"

type_synonym frame = "pixel list list"

record video =
  isOpened :: bool
  CAP_PROP_FPS :: real
  CAP_PROP_FRAME_COUNT :: real
  frames :: "frame list"

text \<open>
  A Python slice \<^verbatim>\<open>xs[start:stop]\<close>: a negative bound counts from the end, and both
  bounds are clipped to the sequence.
\<close>

definition py_slice :: "'a list \<Rightarrow> int \<Rightarrow> int \<Rightarrow> 'a list" where
  "py_slice xs start stop =
     (let n = int (length xs);
          s = (if start < 0 then max (start + n) 0 else min start n);
          e = (if stop < 0 then max (stop + n) 0 else min stop n)
      in take (nat (e - s)) (drop (nat s) xs))"

text \<open>
  Lines 130 to 142, for one frame: the sums over the window of rows and columns, and the
  three means. \<^verbatim>\<open>sumr / no_of_pixels\<close> divides Python numbers and raises
  \<^verbatim>\<open>ZeroDivisionError\<close> when the window is empty. \<^verbatim>\<open>frame[0]\<close> is evaluated inside the
  loop over the rows only.
\<close>

definition roi_means :: "frame \<Rightarrow> error + (real \<times> real \<times> real)" where
  "roi_means frame =
     (let rows = py_slice frame (py_int ((real (length frame) - 100) / 2))
                                (py_int ((real (length frame) + 100) / 2));
          window = concat (map (\<lambda>i. py_slice i
                                  (py_int ((real (length (frame ! 0)) - 100) / 2))
                                  (py_int ((real (length (frame ! 0)) + 100) / 2))) rows);
          sumr = (\<Sum>j \<leftarrow> window. real (snd (snd j)));
          sumg = (\<Sum>j \<leftarrow> window. real (fst (snd j)));
          sumb = (\<Sum>j \<leftarrow> window. real (fst j));
          no_of_pixels = length window
      in if no_of_pixels = 0 then Inl ZeroDivisionError
         else Inr (sumr / real no_of_pixels, sumg / real no_of_pixels,
                   sumb / real no_of_pixels))"

text \<open>The loop of lines 125 to 142 over the frames, appending to \<open>R\<close>, \<open>G\<close> and \<open>B\<close>.\<close>

fun sample_frames ::
  "frame list \<Rightarrow> real list \<Rightarrow> real list \<Rightarrow> real list
     \<Rightarrow> error + (real list \<times> real list \<times> real list)" where
  "sample_frames [] R G B = Inr (R, G, B)"
| "sample_frames (frame # rest) R G B =
     (case roi_means frame of
        Inl e \<Rightarrow> Inl e
      | Inr (r, g, b) \<Rightarrow> sample_frames rest (R @ [r]) (G @ [g]) (B @ [b]))"

text \<open>The two shapes of a response: \<^verbatim>\<open>{"error": ...}\<close> and the result object.\<close>

datatype 'm response =
  Failure string
| Result (r_avg: "real list") (BPM_of: npfloat) (HRV_of: hrv_metrics)
    (Stress_Score_of: "'m option")

text \<open>
  Lines 110 to 162. \<^verbatim>\<open>1.0 / fps\<close> divides Python floats and raises
  \<^verbatim>\<open>ZeroDivisionError\<close> for 0. Only the red channel is processed.
\<close>

definition get_beats_per_min ::
  "(string \<Rightarrow> video) \<Rightarrow> butter_design \<Rightarrow> 'm hrv_capability \<Rightarrow> string
     \<Rightarrow> error + 'm response" where
  "get_beats_per_min VideoCapture butter hrv query =
     (if \<not> isOpened (VideoCapture query)
      then Inr (Failure ''Video file could not be opened. Please check the path.'')
      else let video_data = VideoCapture query;
               fps = CAP_PROP_FPS video_data;
               frame_count = py_int (CAP_PROP_FRAME_COUNT video_data)
           in if frame_count = 0 then Inr (Failure ''Video contains no frames.'')
              else if fps = 0 then Inl ZeroDivisionError
              else let time_bw_frame = 1 / fps
                   in (case sample_frames (frames video_data) [] [] [] of
                         Inl e \<Rightarrow> Inl e
                       | Inr (R0, G0, B0) \<Rightarrow>
                           let R = py_slice R0 100 (- 100);
                               G = py_slice G0 100 (- 100);
                               B = py_slice B0 100 (- 100);
                               r_sampling_rate = 8 * py_int (fps + 1)
                           in (case process_signal butter R 5 10 100
                                       (real_of_int r_sampling_rate) 7 of
                                 Inl e \<Rightarrow> Inl e
                               | Inr r_averaged \<Rightarrow>
                                   (case give_bpm_and_hrv hrv r_averaged time_bw_frame of
                                      Inl e \<Rightarrow> Inl e
                                    | Inr bpm_and_hrv \<Rightarrow>
                                        Inr (Result r_averaged (BPM bpm_and_hrv)
                                               (HRV bpm_and_hrv)
                                               (Stress_Score bpm_and_hrv))))))"

section \<open>Flat peaks and strict local maxima\<close>

text \<open>
  A flat peak is a run \<open>l .. r\<close> of equal samples, away from both ends of the signal,
  whose two neighbours are strictly lower. A strict local maximum is a flat peak of
  width one.
\<close>

definition flat_peak :: "real list \<Rightarrow> nat \<Rightarrow> nat \<Rightarrow> bool" where
  "flat_peak x l r \<longleftrightarrow>
     0 < l \<and> l \<le> r \<and> r + 1 < length x \<and> x ! (l - 1) < x ! l \<and>
     (\<forall>k \<in> {l..r}. x ! k = x ! l) \<and> x ! (r + 1) < x ! l"

definition strict_local_max :: "real list \<Rightarrow> nat \<Rightarrow> bool" where
  "strict_local_max x p \<longleftrightarrow>
     0 < p \<and> p + 1 < length x \<and> x ! (p - 1) < x ! p \<and> x ! (p + 1) < x ! p"

section \<open>The HRV formulas of the specification\<close>

text \<open>
  SDNN, RMSSD and pNN50 as the specification words them, with indexed sums over the
  intervals in milliseconds; they are compared with \<^verbatim>\<open>calculate_hrv\<close> below.
\<close>

definition rr_ms :: "real list \<Rightarrow> nat \<Rightarrow> real" where
  "rr_ms rr i = rr ! i * 1000"

definition spec_sdnn :: "real list \<Rightarrow> real" where
  "spec_sdnn rr =
     (let n = length rr; mu = (\<Sum>i < n. rr_ms rr i) / real n
      in sqrt ((\<Sum>i < n. (rr_ms rr i - mu) ^ 2) / real n))"

definition spec_rmssd :: "real list \<Rightarrow> real" where
  "spec_rmssd rr =
     (let n = length rr
      in sqrt ((\<Sum>i < n - 1. (rr_ms rr (i + 1) - rr_ms rr i) ^ 2) / real (n - 1)))"

definition spec_pnn50 :: "real list \<Rightarrow> real" where
  "spec_pnn50 rr =
     (let n = length rr
      in 100 * real (card {i. i < n - 1 \<and> \<bar>rr_ms rr (i + 1) - rr_ms rr i\<bar> > 50}) / real n)"

section \<open>The zero-phase moving average of the specification\<close>

text \<open>
  The smoothing of the specification, written without the filter's state: the mean of
  the last \<open>L\<close> samples, where the signal is taken to have stood at \<open>x0\<close> before its
  first sample; applied forward, then backward on the reversed result, to the signal
  padded by \<open>3 L\<close> mirrored samples at each end, and trimmed to the signal's length.
\<close>

definition window_mean :: "nat \<Rightarrow> real \<Rightarrow> real list \<Rightarrow> nat \<Rightarrow> real" where
  "window_mean L x0 xs m = (\<Sum>k < L. if k \<le> m then xs ! (m - k) else x0) / real L"

definition moving_average :: "nat \<Rightarrow> real \<Rightarrow> real list \<Rightarrow> real list" where
  "moving_average L x0 xs = map (window_mean L x0 xs) [0..<length xs]"

definition zero_phase_moving_average :: "nat \<Rightarrow> real list \<Rightarrow> real list" where
  "zero_phase_moving_average L x =
     (let edge = 3 * L;
          ext = odd_ext x edge;
          forward = moving_average L (hd ext) ext;
          backward = rev (moving_average L (last forward) (rev forward))
      in take (length x) (drop edge backward))"

text \<open>
  The same for a filter of arbitrary taps \<open>b\<close> and denominator 1: each output sample is
  the weighted sum of the last \<open>len(b)\<close> input samples.
\<close>

definition fir_pass :: "real list \<Rightarrow> real \<Rightarrow> real list \<Rightarrow> real list" where
  "fir_pass b x0 xs =
     map (\<lambda>m. \<Sum>k < length b. b ! k * (if k \<le> m then xs ! (m - k) else x0)) [0..<length xs]"

definition zero_phase_fir :: "real list \<Rightarrow> real list \<Rightarrow> real list" where
  "zero_phase_fir b x =
     (let edge = 3 * length b;
          ext = odd_ext x edge;
          forward = fir_pass b (hd ext) ext;
          backward = rev (fir_pass b (last forward) (rev forward))
      in take (length x) (drop edge backward))"

section \<open>Sample capabilities\<close>

text \<open>
  Three instances of the external capability, for evaluating the pipeline on concrete
  inputs: one whose table has no stress metric, one that raises, and one that reports a
  metric.
\<close>

definition hrv_absent :: "real hrv_capability" where
  "hrv_absent b sampling_rate = Inr Map.empty"

definition hrv_failing :: "real hrv_capability" where
  "hrv_failing b sampling_rate = Inl ExternalError"

definition hrv_present :: "real hrv_capability" where
  "hrv_present b sampling_rate = Inr [''HRV_SI'' \<mapsto> sum_list b]"

section \<open>Sample design routine and video sources\<close>

text \<open>
  A stand-in for the design routine, for evaluating the pipeline on concrete inputs: it
  rejects a normalised cut-off outside \<open>(0, 1)\<close>, as the library does, and otherwise
  returns \<open>order + 1\<close> averaging coefficients. A second stand-in returns the
  coefficients of the filter that passes its input unchanged. Three sources: one that
  cannot be opened, one that reports no frames, and one of a single frame of one black
  pixel.
\<close>

definition butter_sample :: butter_design where
  "butter_sample order wn bt =
     (if 0 < wn \<and> wn < 1
      then Inr (replicate (order + 1) (1 / real (order + 1)), 1 # replicate order 0)
      else Inl ValueError)"

definition butter_identity :: butter_design where
  "butter_identity order wn bt = Inr (1 # replicate order 0, 1 # replicate order 0)"

definition capture_missing :: "string \<Rightarrow> video" where
  "capture_missing query =
     \<lparr>isOpened = False, CAP_PROP_FPS = 0, CAP_PROP_FRAME_COUNT = 0, frames = []\<rparr>"

definition capture_empty :: "string \<Rightarrow> video" where
  "capture_empty query =
     \<lparr>isOpened = True, CAP_PROP_FPS = 30, CAP_PROP_FRAME_COUNT = 0, frames = []\<rparr>"

definition capture_one_frame :: "string \<Rightarrow> video" where
  "capture_one_frame query =
     \<lparr>isOpened = True, CAP_PROP_FPS = 30, CAP_PROP_FRAME_COUNT = 1,
      frames = [[[(0, 0, 0)]]]\<rparr>"

section \<open>The scan finds exactly the flat peaks\<close>

lemma skip_equal_run:
  "k \<le> m \<Longrightarrow> m < skip_equal x i k \<Longrightarrow> x ! m = x ! i \<and> m < length x - 1"
proof (induction x i k rule: skip_equal.induct)
  case (1 x i k)
  show ?case
  proof (cases "k < length x - 1 \<and> x ! k = x ! i")
    case True
    then have eq: "skip_equal x i k = skip_equal x i (k + 1)"
      by (subst skip_equal.simps) simp
    show ?thesis
    proof (cases "m = k")
      case True
      with \<open>k < length x - 1 \<and> x ! k = x ! i\<close> show ?thesis by simp
    next
      case False
      with "1.prems" have "k + 1 \<le> m" by simp
      moreover from "1.prems" eq have "m < skip_equal x i (k + 1)" by simp
      ultimately show ?thesis using "1.IH" [OF True] by blast
    qed
  next
    case False
    then have "skip_equal x i k = k"
      by (subst skip_equal.simps) auto
    with "1.prems" show ?thesis by simp
  qed
qed

lemma skip_equal_stop:
  "\<not> (skip_equal x i k < length x - 1 \<and> x ! (skip_equal x i k) = x ! i)"
proof (induction x i k rule: skip_equal.induct)
  case (1 x i k)
  show ?case
  proof (cases "k < length x - 1 \<and> x ! k = x ! i")
    case True
    then have "skip_equal x i k = skip_equal x i (k + 1)"
      by (subst skip_equal.simps) simp
    with "1.IH" [OF True] show ?thesis by metis
  next
    case False
    then have "skip_equal x i k = k"
      by (subst skip_equal.simps) auto
    with False show ?thesis by metis
  qed
qed

lemma skip_equal_le: "k \<le> length x - 1 \<Longrightarrow> skip_equal x i k \<le> length x - 1"
proof (induction x i k rule: skip_equal.induct)
  case (1 x i k)
  show ?case
  proof (cases "k < length x - 1 \<and> x ! k = x ! i")
    case True
    then have eq: "skip_equal x i k = skip_equal x i (k + 1)"
      by (subst skip_equal.simps) simp
    from True have "k + 1 \<le> length x - 1" by simp
    then have "skip_equal x i (k + 1) \<le> length x - 1" by (rule "1.IH" [OF True])
    with eq show ?thesis by metis
  next
    case False
    then have "skip_equal x i k = k"
      by (subst skip_equal.simps) auto
    with "1.prems" show ?thesis by metis
  qed
qed


lemma skip_equal_flat_peak:
  assumes "flat_peak x i r"
  shows "skip_equal x i (i + 1) = r + 1"
proof -
  define j where "j = skip_equal x i (i + 1)"
  from assms have le: "i \<le> r" and len: "r + 1 < length x" and drop: "x ! (r + 1) < x ! i"
    unfolding flat_peak_def by blast+
  from assms have "\<forall>k \<in> {i..r}. x ! k = x ! i"
    unfolding flat_peak_def by blast
  then have run: "x ! k = x ! i" if "i \<le> k" "k \<le> r" for k
    using that atLeastAtMost_iff by blast
  have ge: "i + 1 \<le> j" unfolding j_def by (rule skip_equal_ge)
  have "\<not> r + 1 < j"
  proof
    assume "r + 1 < j"
    moreover from le have "i + 1 \<le> r + 1" by simp
    ultimately have "x ! (r + 1) = x ! i"
      unfolding j_def using skip_equal_run by blast
    with drop show False by simp
  qed
  moreover have "\<not> j \<le> r"
  proof
    assume "j \<le> r"
    with ge have "x ! j = x ! i" by (intro run) simp_all
    moreover from \<open>j \<le> r\<close> len have "j < length x - 1" by simp
    ultimately show False unfolding j_def using skip_equal_stop by blast
  qed
  ultimately have "j = r + 1" by simp
  then show ?thesis by (simp add: j_def)
qed

lemma flat_peak_skip_equal:
  assumes "0 < i" "i < length x - 1" "x ! (i - 1) < x ! i"
    and "x ! (skip_equal x i (i + 1)) < x ! i"
  shows "flat_peak x i (skip_equal x i (i + 1) - 1)"
proof -
  define j where "j = skip_equal x i (i + 1)"
  have ge: "i + 1 \<le> j" unfolding j_def by (rule skip_equal_ge)
  from assms(2) have "i + 1 \<le> length x - 1" by simp
  then have "j \<le> length x - 1" unfolding j_def by (rule skip_equal_le)
  with assms(2) ge have len: "j - 1 + 1 < length x" by simp
  have run: "x ! k = x ! i" if "i \<le> k" "k \<le> j - 1" for k
  proof (cases "k = i")
    case False
    with that ge have "i + 1 \<le> k" "k < j" by simp_all
    then show ?thesis unfolding j_def using skip_equal_run by blast
  qed simp
  from ge have "i \<le> j - 1" "j - 1 + 1 = j" by simp_all
  moreover have "\<forall>k \<in> {i..j - 1}. x ! k = x ! i"
    using run atLeastAtMost_iff by blast
  moreover note assms(1) assms(3) len
  moreover from assms(4) have "x ! (j - 1 + 1) < x ! i"
    using \<open>j - 1 + 1 = j\<close> by (simp add: j_def)
  ultimately have "flat_peak x i (j - 1)"
    unfolding flat_peak_def by blast
  then show ?thesis by (simp add: j_def)
qed


lemma local_maxima_from_sound:
  "1 \<le> i \<Longrightarrow> p \<in> set (local_maxima_from x i) \<Longrightarrow>
     \<exists>l r. i \<le> l \<and> flat_peak x l r \<and> p = (l + r) div 2"
proof (induction x i rule: local_maxima_from.induct)
  case (1 x i)
  define j where "j = skip_equal x i (i + 1)"
  have unf: "local_maxima_from x i =
     (if i < length x - 1
      then if x ! (i - 1) < x ! i
           then if x ! j < x ! i
                then ((i + (j - 1)) div 2) # local_maxima_from x (j + 1)
                else local_maxima_from x (i + 1)
           else local_maxima_from x (i + 1)
      else [])"
    unfolding j_def by (subst local_maxima_from.simps) (simp add: Let_def)
  have ge: "i + 1 \<le> j" unfolding j_def by (rule skip_equal_ge)
  from "1.prems"(2) unf have inb: "i < length x - 1" by (auto split: if_splits)
  show ?case
  proof (cases "x ! (i - 1) < x ! i")
    case rise: True
    show ?thesis
    proof (cases "x ! j < x ! i")
      case True
      with inb rise unf "1.prems"(2)
      have "p = (i + (j - 1)) div 2 \<or> p \<in> set (local_maxima_from x (j + 1))" by simp
      then show ?thesis
      proof
        assume "p = (i + (j - 1)) div 2"
        moreover from "1.prems"(1) inb rise True have "flat_peak x i (j - 1)"
          unfolding j_def by (intro flat_peak_skip_equal) simp_all
        ultimately show ?thesis by blast
      next
        assume "p \<in> set (local_maxima_from x (j + 1))"
        moreover from ge have "1 \<le> j + 1" by simp
        ultimately obtain l r where "j + 1 \<le> l" "flat_peak x l r" "p = (l + r) div 2"
          using "1.IH"(1) [OF inb rise j_def True] by blast
        moreover from \<open>j + 1 \<le> l\<close> ge have "i \<le> l" by simp
        ultimately show ?thesis by blast
      qed
    next
      case False
      with inb rise unf "1.prems"(2) have "p \<in> set (local_maxima_from x (i + 1))" by simp
      then obtain l r where "i + 1 \<le> l" "flat_peak x l r" "p = (l + r) div 2"
        using "1.IH"(2) [OF inb rise j_def False] by auto
      moreover from \<open>i + 1 \<le> l\<close> have "i \<le> l" by simp
      ultimately show ?thesis by blast
    qed
  next
    case False
    with inb unf "1.prems"(2) have "p \<in> set (local_maxima_from x (i + 1))" by simp
    then obtain l r where "i + 1 \<le> l" "flat_peak x l r" "p = (l + r) div 2"
      using "1.IH"(3) [OF inb False] by auto
    moreover from \<open>i + 1 \<le> l\<close> have "i \<le> l" by simp
    ultimately show ?thesis by blast
  qed
qed

lemma local_maxima_from_complete:
  "1 \<le> i \<Longrightarrow> i \<le> l \<Longrightarrow> flat_peak x l r \<Longrightarrow>
     (l + r) div 2 \<in> set (local_maxima_from x i)"
proof (induction x i rule: local_maxima_from.induct)
  case (1 x i)
  define j where "j = skip_equal x i (i + 1)"
  have unf: "local_maxima_from x i =
     (if i < length x - 1
      then if x ! (i - 1) < x ! i
           then if x ! j < x ! i
                then ((i + (j - 1)) div 2) # local_maxima_from x (j + 1)
                else local_maxima_from x (i + 1)
           else local_maxima_from x (i + 1)
      else [])"
    unfolding j_def by (subst local_maxima_from.simps) (simp add: Let_def)
  have ge: "i + 1 \<le> j" unfolding j_def by (rule skip_equal_ge)
  from "1.prems"(3) have lr: "l \<le> r" "r + 1 < length x" and lrise: "x ! (l - 1) < x ! l"
    unfolding flat_peak_def by blast+
  with "1.prems"(2) have inb: "i < length x - 1" by simp
  have at_i: "j = r + 1 \<and> x ! j < x ! i" if "l = i"
  proof -
    from that "1.prems"(3) have fp: "flat_peak x i r" by simp
    then have "j = r + 1" unfolding j_def by (rule skip_equal_flat_peak)
    moreover from fp have "x ! (r + 1) < x ! i" unfolding flat_peak_def by blast
    ultimately show ?thesis by simp
  qed
  show ?case
  proof (cases "x ! (i - 1) < x ! i")
    case rise: True
    show ?thesis
    proof (cases "x ! j < x ! i")
      case True
      with inb rise unf
      have res: "local_maxima_from x i = ((i + (j - 1)) div 2) # local_maxima_from x (j + 1)"
        by simp
      show ?thesis
      proof (cases "l = i")
        case True
        with at_i have "(l + r) div 2 = (i + (j - 1)) div 2" by simp
        with res show ?thesis by simp
      next
        case False
        have "j + 1 \<le> l"
        proof (rule ccontr)
          assume "\<not> j + 1 \<le> l"
          with False "1.prems"(2) have range: "i < l" "l \<le> j" by simp_all
          have prev: "x ! (l - 1) = x ! i"
          proof (cases "l - 1 = i")
            case False
            with range have "i + 1 \<le> l - 1" "l - 1 < j" by simp_all
            then show ?thesis unfolding j_def using skip_equal_run by blast
          qed simp
          show False
          proof (cases "l = j")
            case True
            with prev lrise \<open>x ! j < x ! i\<close> show False by simp
          next
            case False
            with range have "i + 1 \<le> l" "l < j" by simp_all
            then have "x ! l = x ! i" unfolding j_def using skip_equal_run by blast
            with prev lrise show False by simp
          qed
        qed
        moreover from ge have "1 \<le> j + 1" by simp
        ultimately have "(l + r) div 2 \<in> set (local_maxima_from x (j + 1))"
          using "1.IH"(1) [OF inb rise j_def True] "1.prems"(3) by blast
        with res show ?thesis by simp
      qed
    next
      case False
      with at_i have "l \<noteq> i" by blast
      with "1.prems"(2) have "i + 1 \<le> l" by simp
      then have "(l + r) div 2 \<in> set (local_maxima_from x (i + 1))"
        using "1.IH"(2) [OF inb rise j_def False] "1.prems"(3) by simp
      with inb rise False unf show ?thesis by simp
    qed
  next
    case False
    with lrise have "l \<noteq> i" by blast
    with "1.prems"(2) have "i + 1 \<le> l" by simp
    then have "(l + r) div 2 \<in> set (local_maxima_from x (i + 1))"
      using "1.IH"(3) [OF inb False] "1.prems"(3) by simp
    with inb False unf show ?thesis by simp
  qed
qed


lemma flat_peak_mid: "flat_peak x l r \<Longrightarrow> l \<le> (l + r) div 2 \<and> (l + r) div 2 \<le> r"
  unfolding flat_peak_def by linarith

lemma flat_peak_value: "flat_peak x l r \<Longrightarrow> x ! ((l + r) div 2) = x ! l"
proof -
  assume fp: "flat_peak x l r"
  then have "(l + r) div 2 \<in> {l..r}" using flat_peak_mid by simp
  moreover from fp have "\<forall>k \<in> {l..r}. x ! k = x ! l" unfolding flat_peak_def by blast
  ultimately show ?thesis by blast
qed

lemma local_maxima_from_bounds:
  assumes "1 \<le> i" "p \<in> set (local_maxima_from x i)"
  shows "i \<le> p \<and> p + 1 < length x"
proof -
  from assms obtain l r where "i \<le> l" and fp: "flat_peak x l r" and "p = (l + r) div 2"
    using local_maxima_from_sound by blast
  moreover from fp have "r + 1 < length x" unfolding flat_peak_def by blast
  ultimately show ?thesis using flat_peak_mid [OF fp] by linarith
qed

lemma local_maxima_from_sorted: "1 \<le> i \<Longrightarrow> sorted_wrt (<) (local_maxima_from x i)"
proof (induction x i rule: local_maxima_from.induct)
  case (1 x i)
  define j where "j = skip_equal x i (i + 1)"
  have unf: "local_maxima_from x i =
     (if i < length x - 1
      then if x ! (i - 1) < x ! i
           then if x ! j < x ! i
                then ((i + (j - 1)) div 2) # local_maxima_from x (j + 1)
                else local_maxima_from x (i + 1)
           else local_maxima_from x (i + 1)
      else [])"
    unfolding j_def by (subst local_maxima_from.simps) (simp add: Let_def)
  have ge: "i + 1 \<le> j" unfolding j_def by (rule skip_equal_ge)
  show ?case
  proof (cases "i < length x - 1")
    case inb: True
    show ?thesis
    proof (cases "x ! (i - 1) < x ! i")
      case rise: True
      show ?thesis
      proof (cases "x ! j < x ! i")
        case True
        have "sorted_wrt (<) (local_maxima_from x (j + 1))"
          using "1.IH"(1) [OF inb rise j_def True] by simp
        moreover have "(i + (j - 1)) div 2 < q" if "q \<in> set (local_maxima_from x (j + 1))" for q
        proof -
          from that have "j + 1 \<le> q" using local_maxima_from_bounds [of "j + 1" q x] by simp
          with ge show ?thesis by linarith
        qed
        ultimately show ?thesis using inb rise True unf by simp
      next
        case False
        with inb rise unf "1.IH"(2) [OF inb rise j_def False] show ?thesis by simp
      qed
    next
      case False
      with inb unf "1.IH"(3) [OF inb False] show ?thesis by simp
    qed
  next
    case False
    with unf show ?thesis by simp
  qed
qed

lemma set_local_maxima_1d:
  "set (local_maxima_1d x) = {p. \<exists>l r. flat_peak x l r \<and> p = (l + r) div 2}"
proof (intro set_eqI iffI)
  fix p assume "p \<in> set (local_maxima_1d x)"
  then show "p \<in> {p. \<exists>l r. flat_peak x l r \<and> p = (l + r) div 2}"
    unfolding local_maxima_1d_def using local_maxima_from_sound [of 1 p x] by blast
next
  fix p assume "p \<in> {p. \<exists>l r. flat_peak x l r \<and> p = (l + r) div 2}"
  then obtain l r where fp: "flat_peak x l r" and p: "p = (l + r) div 2" by blast
  from fp have "1 \<le> l" unfolding flat_peak_def by simp
  with fp p show "p \<in> set (local_maxima_1d x)"
    unfolding local_maxima_1d_def using local_maxima_from_complete [of 1 l x r] by simp
qed

lemma set_find_peaks:
  "set (find_peaks x h) = {p. \<exists>l r. flat_peak x l r \<and> p = (l + r) div 2 \<and> h \<le> x ! p}"
  unfolding find_peaks_def using set_local_maxima_1d [of x] by auto

lemma find_peaks_sorted: "sorted_wrt (<) (find_peaks x h)"
  unfolding find_peaks_def local_maxima_1d_def
  by (intro sorted_wrt_filter local_maxima_from_sorted) simp

lemma find_peaks_bounds: "p \<in> set (find_peaks x h) \<Longrightarrow> 0 < p \<and> p + 1 < length x"
  unfolding find_peaks_def local_maxima_1d_def
  using local_maxima_from_bounds [of 1 p x] by simp

lemma py_min_Min: "xs \<noteq> [] \<Longrightarrow> py_min xs = Min (set xs)"
proof -
  assume "xs \<noteq> []"
  then obtain v vs where xs: "xs = v # vs" by (cases xs) auto
  have "fold min vs v = Min (set (v # vs))" by (rule Min.set_eq_fold [symmetric])
  with xs show ?thesis by (simp add: py_min_def)
qed

lemma py_max_Max: "xs \<noteq> [] \<Longrightarrow> py_max xs = Max (set xs)"
proof -
  assume "xs \<noteq> []"
  then obtain v vs where xs: "xs = v # vs" by (cases xs) auto
  have "fold max vs v = Max (set (v # vs))" by (rule Max.set_eq_fold [symmetric])
  with xs show ?thesis by (simp add: py_max_def)
qed

lemma strict_local_max_flat_peak: "strict_local_max x p \<longleftrightarrow> flat_peak x p p"
  unfolding strict_local_max_def flat_peak_def by auto

lemma local_maxima_1d_example: "local_maxima_1d [0, 1, 0, 2, 0] = [1, 3]"
  by (simp add: local_maxima_1d_def local_maxima_from.simps skip_equal.simps)

lemma local_maxima_1d_plateau: "local_maxima_1d [0, 1, 1, 0] = [1]"
  by (simp add: local_maxima_1d_def local_maxima_from.simps skip_equal.simps)

lemma local_maxima_1d_low_peak: "local_maxima_1d [0, 1, 0, 16, 0, 1/2, 0] = [1, 3, 5]"
  by (simp add: local_maxima_1d_def local_maxima_from.simps skip_equal.simps)

section \<open>RR intervals and BPM\<close>

lemma length_rr_intervals_of [simp]:
  "length (rr_intervals_of r_peaks t) = length r_peaks - 1"
  by (simp add: rr_intervals_of_def)

lemma nth_rr_intervals_of:
  "i < length r_peaks - 1 \<Longrightarrow>
     rr_intervals_of r_peaks t ! i =
       real_of_int (int (r_peaks ! (i + 1)) - int (r_peaks ! i)) * t"
  by (simp add: rr_intervals_of_def)

lemma rr_intervals_of_positive:
  assumes "sorted_wrt (<) r_peaks" "0 < t" "v \<in> set (rr_intervals_of r_peaks t)"
  shows "0 < v"
proof -
  from assms(3) obtain i where i: "i < length r_peaks - 1"
    and v: "v = real_of_int (int (r_peaks ! (i + 1)) - int (r_peaks ! i)) * t"
    by (auto simp: rr_intervals_of_def)
  from i have "i < i + 1" "i + 1 < length r_peaks" by simp_all
  with assms(1) have "r_peaks ! i < r_peaks ! (i + 1)"
    using sorted_wrt_nth_less by blast
  then have "0 < real_of_int (int (r_peaks ! (i + 1)) - int (r_peaks ! i))" by simp
  with assms(2) v show ?thesis by simp
qed

lemma sum_list_positive:
  fixes xs :: "real list"
  shows "xs \<noteq> [] \<Longrightarrow> (\<And>v. v \<in> set xs \<Longrightarrow> 0 < v) \<Longrightarrow> 0 < sum_list xs"
proof (induction xs)
  case Nil
  then show ?case by simp
next
  case (Cons a xs)
  have "0 < a" using Cons.prems(2) by simp
  show ?case
  proof (cases "xs = []")
    case True
    with \<open>0 < a\<close> show ?thesis by simp
  next
    case False
    then have "0 < sum_list xs" using Cons.IH Cons.prems(2) by simp
    with \<open>0 < a\<close> show ?thesis by simp
  qed
qed

lemma bpm_of_positive:
  assumes "rr \<noteq> []" "\<And>v. v \<in> set rr \<Longrightarrow> 0 < v"
  shows "bpm_of rr = Num (60 / (sum_list rr / real (length rr)))"
    and "0 < 60 / (sum_list rr / real (length rr))"
proof -
  have "0 < sum_list rr" using assms by (rule sum_list_positive)
  moreover from assms(1) have "0 < real (length rr)" by simp
  ultimately have pos: "0 < sum_list rr / real (length rr)" by simp
  then have "sum_list rr / real (length rr) \<noteq> 0" by (rule less_imp_neq [symmetric])
  with assms(1) show "bpm_of rr = Num (60 / (sum_list rr / real (length rr)))"
    unfolding bpm_of_def np_mean_def by (simp del: divide_eq_0_iff)
  have "(0 :: real) < 60" by simp
  then show "0 < 60 / (sum_list rr / real (length rr))" using pos by (rule divide_pos_pos)
qed

lemma give_bpm_and_hrv_few:
  assumes "give_bpm_and_hrv hrv averaged t = Inr res"
    and "length (find_peaks averaged (r_min_peak averaged)) < 2"
  shows "res = degenerate"
proof -
  from assms(1) have "averaged \<noteq> []"
    by (auto simp: give_bpm_and_hrv_def)
  with assms show ?thesis
    by (simp add: give_bpm_and_hrv_def Let_def)
qed

lemma give_bpm_and_hrv_many:
  assumes "give_bpm_and_hrv hrv averaged t = Inr res"
    and "2 \<le> length (find_peaks averaged (r_min_peak averaged))"
  shows "BPM res = bpm_of (rr_intervals_of (find_peaks averaged (r_min_peak averaged)) t)"
proof -
  from assms(1) have "averaged \<noteq> []"
    by (auto simp: give_bpm_and_hrv_def)
  moreover from assms(2) have "\<not> length (find_peaks averaged (r_min_peak averaged)) \<le> 1"
    by simp
  ultimately show ?thesis
    using assms(1) unfolding give_bpm_and_hrv_def Let_def
    by (auto split: sum.splits if_splits)
qed

lemma give_bpm_and_hrv_example:
  "give_bpm_and_hrv hrv_absent [0, 1, 0, 2, 0] (1 / 30) =
     Inr \<lparr>BPM = Num 900, HRV = \<lparr>SDNN = Num 0, RMSSD = NaN, pNN50 = Num 0\<rparr>,
          Stress_Score = None\<rparr>"
proof -
  have fp: "find_peaks [0, 1, 0, 2, 0] (r_min_peak [0, 1, 0, 2, 0]) = [1, 3]"
    by (simp add: find_peaks_def local_maxima_1d_example r_min_peak_def py_min_def py_max_def)
  have rr: "rr_intervals_of [1, 3] (1 / 30) = [1 / 15]"
    by (simp add: rr_intervals_of_def)
  have hrv: "calculate_hrv [1 / 15] = Inr \<lparr>SDNN = Num 0, RMSSD = NaN, pNN50 = Num 0\<rparr>"
    by (simp add: calculate_hrv_def np_std_def np_mean_def)
  have bp: "binary_peaks [1, 3] = Inr [0, 1, 0, 1]"
    by (simp add: binary_peaks_def numeral_eq_Suc)
  have st: "calculate_stress_score hrv_absent [1, 3] 30 = Inr None"
    using bp by (simp add: calculate_stress_score_def hrv_absent_def)
  have bpm: "bpm_of [1 / 15] = Num 900"
    by (simp add: bpm_of_def np_mean_def)
  show ?thesis
    using fp rr hrv st bpm by (simp add: give_bpm_and_hrv_def py_int_def)
qed

section \<open>HRV metrics and the pulse train\<close>

lemma length_np_diff [simp]: "length (np_diff xs) = length xs - 1"
  by (induction xs rule: np_diff.induct) simp_all

lemma nth_np_diff: "i < length xs - 1 \<Longrightarrow> np_diff xs ! i = xs ! (i + 1) - xs ! i"
proof (induction xs arbitrary: i rule: np_diff.induct)
  case (1 u v vs)
  then show ?case by (cases i) simp_all
qed simp_all

lemma sum_list_nth_sum: "sum_list (map f xs) = (\<Sum>i < length xs. f (xs ! i))"
  for f :: "real \<Rightarrow> real"
proof -
  have "sum_list (map f xs) = (\<Sum>i = 0..<length (map f xs). map f xs ! i)"
    by (rule sum_list_sum_nth)
  also have "\<dots> = (\<Sum>i < length xs. f (xs ! i))"
    by (simp add: atLeast0LessThan)
  finally show ?thesis .
qed

lemma sum_list_np_diff:
  "sum_list (map f (np_diff xs)) = (\<Sum>i < length xs - 1. f (xs ! (i + 1) - xs ! i))"
  for f :: "real \<Rightarrow> real"
proof -
  have "sum_list (map f (np_diff xs)) = (\<Sum>i < length (np_diff xs). f (np_diff xs ! i))"
    by (rule sum_list_nth_sum)
  also have "\<dots> = (\<Sum>i < length xs - 1. f (xs ! (i + 1) - xs ! i))"
    by (rule sum.cong) (simp_all add: nth_np_diff)
  finally show ?thesis .
qed

lemma length_filter_np_diff:
  "length (filter P (np_diff xs)) = card {i. i < length xs - 1 \<and> P (xs ! (i + 1) - xs ! i)}"
proof -
  have "length (filter P (np_diff xs)) = card {i. i < length (np_diff xs) \<and> P (np_diff xs ! i)}"
    by (rule length_filter_conv_card)
  also have "{i. i < length (np_diff xs) \<and> P (np_diff xs ! i)}
      = {i. i < length xs - 1 \<and> P (xs ! (i + 1) - xs ! i)}"
    by (auto simp: nth_np_diff)
  finally show ?thesis .
qed

lemma np_sqrt_mean_squares:
  fixes g :: "real \<Rightarrow> real"
  assumes "xs \<noteq> []"
  shows "np_sqrt (np_mean (map (\<lambda>v. (g v) ^ 2) xs))
    = Num (sqrt (sum_list (map (\<lambda>v. (g v) ^ 2) xs) / real (length xs)))"
proof -
  have "0 \<le> sum_list (map (\<lambda>v. (g v) ^ 2) xs)"
    by (rule sum_list_nonneg) auto
  then have "\<not> sum_list (map (\<lambda>v. (g v) ^ 2) xs) / real (length xs) < 0"
    by (simp add: not_less)
  with assms show ?thesis by (simp add: np_mean_def)
qed

lemma calculate_hrv_example:
  "calculate_hrv [0.8, 0.82, 0.78, 0.85] =
     Inr \<lparr>SDNN = Num (sqrt 668.75), RMSSD = Num (sqrt 2300), pNN50 = Num 25\<rparr>"
  by (simp add: calculate_hrv_def np_std_def np_mean_def power2_eq_square)

lemma length_fold_update [simp]:
  "length (fold (\<lambda>p b. b[p := v]) ps b) = length b"
  by (induction ps arbitrary: b) simp_all

lemma nth_fold_update:
  "i < length b \<Longrightarrow>
     fold (\<lambda>p b. b[p := v]) ps b ! i = (if i \<in> set ps then v else b ! i)"
proof (induction ps arbitrary: b)
  case Nil
  then show ?case by simp
next
  case (Cons p ps)
  then have "fold (\<lambda>p b. b[p := v]) ps (b[p := v]) ! i
      = (if i \<in> set ps then v else b[p := v] ! i)"
    by simp
  with Cons.prems show ?case by (auto simp: nth_list_update)
qed

lemma sorted_le_last:
  assumes "sorted_wrt (<) ps" "p \<in> set ps"
  shows "p \<le> last (ps :: nat list)"
proof -
  from assms(2) obtain i where i: "i < length ps" "ps ! i = p"
    by (auto simp: in_set_conv_nth)
  then have ne: "ps \<noteq> []" by auto
  show ?thesis
  proof (cases "i = length ps - 1")
    case True
    with i ne show ?thesis by (simp add: last_conv_nth)
  next
    case False
    with i have "i < length ps - 1" "length ps - 1 < length ps" by simp_all
    with assms(1) have "ps ! i < ps ! (length ps - 1)"
      using sorted_wrt_nth_less by blast
    with i ne show ?thesis by (simp add: last_conv_nth)
  qed
qed

lemma binary_peaks_sorted:
  assumes "ps \<noteq> []" "sorted_wrt (<) ps"
  shows "binary_peaks ps = Inr (fold (\<lambda>p b. b[p := 1]) ps (replicate (last ps + 1) 0))"
proof -
  have "p < last ps + 1" if "p \<in> set ps" for p
    using sorted_le_last [OF assms(2) that] by simp
  with assms(1) show ?thesis by (simp add: binary_peaks_def Let_def)
qed

lemma binary_peaks_example: "binary_peaks [1, 3] = Inr [0, 1, 0, 1]"
  by (simp add: binary_peaks_def numeral_eq_Suc)

section \<open>Filtering preserves the length\<close>

lemma length_df2t [simp]: "length (df2t b a z x) = length x"
  by (induction x arbitrary: z) (simp_all add: Let_def)

lemma length_lfilter [simp]: "length (lfilter b a x zi) = length x"
  by (simp add: lfilter_def Let_def)

lemma length_odd_ext: "n < length x \<Longrightarrow> length (odd_ext x n) = length x + 2 * n"
  by (simp add: odd_ext_def)

lemma filtfilt_length:
  assumes "filtfilt b a x = Inr y"
  shows "length y = length x" and "3 * max (length a) (length b) < length x"
proof -
  define edge where "edge = 3 * max (length a) (length b)"
  from assms show long: "3 * max (length a) (length b) < length x"
    unfolding filtfilt_def Let_def by (auto split: if_splits)
  then have ext: "length (odd_ext x edge) = length x + 2 * edge"
    unfolding edge_def by (rule length_odd_ext)
  from assms long obtain zi where
    y: "y = (let ext = odd_ext x edge;
                 y = lfilter b a ext (map (\<lambda>z. z * hd ext) zi);
                 y' = rev (lfilter b a (rev y) (map (\<lambda>z. z * last y) zi))
             in take (length y' - 2 * edge) (drop edge y'))"
    unfolding filtfilt_def Let_def edge_def [symmetric]
    by (auto split: if_splits sum.splits simp: Let_def)
  show "length y = length x"
    unfolding y Let_def by (simp add: ext)
qed

lemma filtfilt_short:
  "length x \<le> 3 * max (length a) (length b) \<Longrightarrow> filtfilt b a x = Inl ValueError"
  unfolding filtfilt_def Let_def by simp

lemma filter_all_length:
  assumes "filter_all butter data fs order cutoff_high cutoff_low = Inr filtered"
  shows "length filtered = length data" and "filtered \<noteq> []"
proof -
  from assms obtain b a hp d c where
    hp: "filtfilt b a data = Inr hp" and f: "filtfilt d c hp = Inr filtered"
    unfolding filter_all_def by (auto split: sum.splits prod.splits)
  from filtfilt_length [OF hp] filtfilt_length [OF f]
  show "length filtered = length data" and "filtered \<noteq> []" by auto
qed

lemma convolve_returns:
  "in1 \<noteq> [] \<Longrightarrow> in2 \<noteq> [] \<Longrightarrow> \<exists>out. convolve in1 in2 = Inr out"
  by (simp add: convolve_def)

lemma process_signal_filtered:
  assumes "filter_all butter y fs order high low = Inr filtered" "0 < L"
  shows "process_signal butter y order high low fs L =
      filtfilt (map (\<lambda>v. v / real L) (replicate L 1)) [1] (map (\<lambda>v. v ^ 2) filtered)"
proof -
  from assms(1) have "filtered \<noteq> []" by (rule filter_all_length(2))
  then have "map (\<lambda>v. v ^ 2) filtered \<noteq> []" by simp
  moreover from assms(2) have "map (\<lambda>v. v / real L) (replicate L (1 :: real)) \<noteq> []" by simp
  ultimately obtain out where
    "convolve (map (\<lambda>v. v ^ 2) filtered) (map (\<lambda>v. v / real L) (replicate L 1)) = Inr out"
    using convolve_returns by blast
  with assms(1) show ?thesis by (simp add: process_signal_def Let_def)
qed

lemma process_signal_simplified_filtered:
  assumes "filter_all butter y fs order high low = Inr filtered"
  shows "process_signal_simplified butter y order high low fs L =
      filtfilt (map (\<lambda>v. v / real L) (replicate L 1)) [1] (map (\<lambda>v. v ^ 2) filtered)"
  using assms by (simp add: process_signal_simplified_def Let_def)

lemma process_signal_raises:
  assumes "filter_all butter y fs order high low = Inl e"
  shows "process_signal butter y order high low fs L = Inl e"
    and "process_signal_simplified butter y order high low fs L = Inl e"
  using assms by (simp_all add: process_signal_def process_signal_simplified_def)

section \<open>Short recordings\<close>

lemma length_sample_frames:
  "sample_frames fs R G B = Inr (R', G', B') \<Longrightarrow> length R' = length R + length fs"
proof (induction fs arbitrary: R G B)
  case Nil
  then show ?case by simp
next
  case (Cons frame rest)
  from Cons.prems obtain r g b where
    "sample_frames rest (R @ [r]) (G @ [g]) (B @ [b]) = Inr (R', G', B')"
    by (auto split: sum.splits prod.splits)
  then have "length R' = length (R @ [r]) + length rest" by (rule Cons.IH)
  then show ?case by simp
qed

lemma length_py_slice_trim: "length (py_slice xs 100 (- 100)) = length xs - 200"
  by (simp add: py_slice_def Let_def)

lemma filter_all_short:
  assumes "\<And>b a. butter_highpass butter cutoff_high fs order = Inr (b, a)
      \<Longrightarrow> length data \<le> 3 * max (length a) (length b)"
  shows "\<exists>e. filter_all butter data fs order cutoff_high cutoff_low = Inl e"
proof (cases "butter_highpass butter cutoff_high fs order")
  case (Inl e)
  then show ?thesis by (simp add: filter_all_def)
next
  case (Inr ba)
  obtain b a where ba: "ba = (b, a)" by (cases ba)
  with Inr assms have "filtfilt b a data = Inl ValueError"
    by (intro filtfilt_short) simp
  with Inr ba show ?thesis by (simp add: filter_all_def)
qed

lemma butter_highpass_design:
  "butter_highpass butter cutoff fs order = Inr (b, a)
     \<Longrightarrow> \<exists>wn. butter order wn High = Inr (b, a)"
  unfolding butter_highpass_def Let_def by (auto split: if_splits)

lemma get_beats_per_min_short:
  assumes opened: "isOpened (VideoCapture query)"
    and count: "py_int (CAP_PROP_FRAME_COUNT (VideoCapture query)) \<noteq> 0"
    and short: "\<And>(R :: real list) b a. length R \<le> length (frames (VideoCapture query)) - 200
        \<Longrightarrow> butter_highpass butter 10
              (real_of_int (8 * py_int (CAP_PROP_FPS (VideoCapture query) + 1))) 5 = Inr (b, a)
        \<Longrightarrow> length R \<le> 3 * max (length a) (length b)"
  shows "\<exists>e. get_beats_per_min VideoCapture butter hrv query = Inl e"
proof (cases "CAP_PROP_FPS (VideoCapture query) = 0")
  case True
  with opened count show ?thesis by (simp add: get_beats_per_min_def Let_def)
next
  case fps: False
  show ?thesis
  proof (cases "sample_frames (frames (VideoCapture query)) [] [] []")
    case (Inl e)
    with opened count fps show ?thesis by (simp add: get_beats_per_min_def Let_def)
  next
    case (Inr rgb)
    obtain R0 G0 B0 where rgb: "rgb = (R0, G0, B0)" by (cases rgb)
    with Inr have "length R0 = length (frames (VideoCapture query))"
      using length_sample_frames by fastforce
    then have "length (py_slice R0 100 (- 100)) \<le> length (frames (VideoCapture query)) - 200"
      by (simp add: length_py_slice_trim)
    then have "\<exists>e. filter_all butter (py_slice R0 100 (- 100))
        (real_of_int (8 * py_int (CAP_PROP_FPS (VideoCapture query) + 1))) 5 10 100 = Inl e"
      using short by (intro filter_all_short) blast
    then obtain e where "process_signal butter (py_slice R0 100 (- 100)) 5 10 100
        (real_of_int (8 * py_int (CAP_PROP_FPS (VideoCapture query) + 1))) 7 = Inl e"
      using process_signal_raises(1) by blast
    with opened count fps Inr rgb show ?thesis
      by (simp add: get_beats_per_min_def Let_def)
  qed
qed

section \<open>The non-degenerate branch\<close>

lemma calculate_hrv_returns:
  "rr \<noteq> [] \<Longrightarrow> \<exists>h. calculate_hrv rr = Inr h"
  by (simp add: calculate_hrv_def Let_def)

lemma find_peaks_Nil [simp]: "find_peaks [] h = []"
  by (simp add: find_peaks_def local_maxima_1d_def local_maxima_from.simps)

lemma give_bpm_and_hrv_nondegenerate:
  assumes peaks: "find_peaks averaged (r_min_peak averaged) = r_peaks"
    and many: "2 \<le> length r_peaks" and t: "t \<noteq> 0"
    and bp: "binary_peaks r_peaks = Inr bp"
    and h: "calculate_hrv (rr_intervals_of r_peaks t) = Inr h"
  shows "give_bpm_and_hrv hrv averaged t =
    (case hrv bp (py_int (1 / t)) of
       Inl e \<Rightarrow> Inl e
     | Inr m \<Rightarrow> Inr \<lparr>BPM = bpm_of (rr_intervals_of r_peaks t), HRV = h,
                      Stress_Score = m ''HRV_SI''\<rparr>)"
proof -
  from peaks many have ne: "averaged \<noteq> []" by auto
  from many have nd: "\<not> length r_peaks \<le> 1" by simp
  show ?thesis
    using ne nd t
    by (simp add: give_bpm_and_hrv_def peaks Let_def h calculate_stress_score_def bp
        split: sum.splits)
qed

lemma binary_peaks_returns:
  assumes "ps \<noteq> []" "sorted_wrt (<) ps"
  shows "\<exists>bp. binary_peaks ps = Inr bp"
  using binary_peaks_sorted [OF assms] by blast

lemma find_peaks_three: "find_peaks [0, 1, 0, 2, 0, 0, 3, 0] (r_min_peak [0, 1, 0, 2, 0, 0, 3, 0]) = [1, 3, 6]"
  by (simp add: find_peaks_def local_maxima_1d_def local_maxima_from.simps skip_equal.simps
      r_min_peak_def py_min_def py_max_def)

section \<open>A filter without feedback is a sliding weighted sum\<close>

lemma df2t_fir:
  assumes "length b = n" "a = 1 # replicate (n - 1) 0" "0 < n" "length z = n - 1"
    and "\<And>i. i < n - 1 \<Longrightarrow> z ! i = (\<Sum>k = i + 1..<n. b ! k * past (k - i))"
    and "m < length xs"
  shows "df2t b a z xs ! m = (\<Sum>k < n. b ! k * (if k \<le> m then xs ! (m - k) else past (k - m)))"
  using assms(4-6)
proof (induction xs arbitrary: z past m)
  case Nil
  then show ?case by simp
next
  case (Cons x xs)
  define y where "y = hd b * x + (if z = [] then 0 else hd z)"
  define z' where "z' = map (\<lambda>i. b ! (i + 1) * x - a ! (i + 1) * y
      + (if i + 1 < length z then z ! (i + 1) else 0)) [0..<length z]"
  have unf: "df2t b a z (x # xs) = y # df2t b a z' xs"
    by (simp add: y_def z'_def Let_def)
  from assms(1,3) have b0: "hd b = b ! 0" by (cases b) auto
  have a_tail: "a ! (i + 1) = 0" if "i < n - 1" for i
    using that assms(2) by simp
  have yval: "y = (\<Sum>k < n. b ! k * (if k \<le> 0 then (x # xs) ! (0 - k) else past (k - 0)))"
  proof -
    have "(\<Sum>k < n. b ! k * (if k \<le> 0 then (x # xs) ! (0 - k) else past (k - 0)))
        = (\<Sum>k = 0..<n. b ! k * (if k = 0 then x else past k))"
      by (intro sum.cong) (auto simp: atLeast0LessThan)
    also have "\<dots> = b ! 0 * x + (\<Sum>k = 1..<n. b ! k * (if k = 0 then x else past k))"
      using assms(3) by (simp add: sum.atLeast_Suc_lessThan)
    also have "(\<Sum>k = 1..<n. b ! k * (if k = 0 then x else past k))
        = (\<Sum>k = 1..<n. b ! k * past k)"
      by (intro sum.cong) auto
    finally have rhs: "(\<Sum>k < n. b ! k * (if k \<le> 0 then (x # xs) ! (0 - k) else past (k - 0)))
        = b ! 0 * x + (\<Sum>k = 1..<n. b ! k * past k)" .
    show ?thesis
    proof (cases "z = []")
      case True
      then have "length z = 0" by simp
      with Cons.prems(1) have "n = 1" using assms(3) by simp
      with True rhs show ?thesis by (simp add: y_def b0)
    next
      case False
      then have "0 < length z" by simp
      with Cons.prems(1) have "0 < n - 1" by simp
      then have "z ! 0 = (\<Sum>k = 0 + 1..<n. b ! k * past (k - 0))" by (rule Cons.prems(2))
      moreover from False have "hd z = z ! 0" by (cases z) auto
      ultimately show ?thesis using False rhs by (simp add: y_def b0)
    qed
  qed
  show ?case
  proof (cases m)
    case 0
    from unf have "df2t b a z (x # xs) ! 0 = y" by (simp only: nth_Cons_0)
    also note yval
    finally show ?thesis unfolding 0 .
  next
    case (Suc m')
    define past' where "past' j = (if j = 1 then x else past (j - 1))" for j
    have len': "length z' = n - 1" using Cons.prems(1) by (simp add: z'_def)
    have inv': "z' ! i = (\<Sum>k = i + 1..<n. b ! k * past' (k - i))" if i: "i < n - 1" for i
    proof -
      from i Cons.prems(1) have "z' ! i = b ! (i + 1) * x - a ! (i + 1) * y
          + (if i + 1 < n - 1 then z ! (i + 1) else 0)"
        by (simp add: z'_def)
      also have "\<dots> = b ! (i + 1) * x + (if i + 1 < n - 1 then z ! (i + 1) else 0)"
        using a_tail [OF i] by simp
      also have "(if i + 1 < n - 1 then z ! (i + 1) else 0)
          = (\<Sum>k = i + 2..<n. b ! k * past (k - (i + 1)))"
      proof (cases "i + 1 < n - 1")
        case True
        then show ?thesis using Cons.prems(2) [of "i + 1"] by simp
      next
        case False
        then have "{i + 2..<n} = {}" by auto
        with False show ?thesis by simp
      qed
      also have "(\<Sum>k = i + 2..<n. b ! k * past (k - (i + 1)))
          = (\<Sum>k = i + 2..<n. b ! k * past' (k - i))"
        by (intro sum.cong) (auto simp: past'_def)
      also have "b ! (i + 1) * x + (\<Sum>k = i + 2..<n. b ! k * past' (k - i))
          = (\<Sum>k = i + 1..<n. b ! k * past' (k - i))"
        using i by (simp add: sum.atLeast_Suc_lessThan past'_def)
      finally show ?thesis .
    qed
    from Cons.prems(3) Suc have m': "m' < length xs" by simp
    have "df2t b a z (x # xs) ! m = df2t b a z' xs ! m'"
      using unf Suc by simp
    also have "\<dots> = (\<Sum>k < n. b ! k * (if k \<le> m' then xs ! (m' - k) else past' (k - m')))"
      using len' inv' m' by (rule Cons.IH)
    also have "\<dots> = (\<Sum>k < n. b ! k * (if k \<le> m then (x # xs) ! (m - k) else past (k - m)))"
    proof (intro sum.cong refl)
      fix k
      show "b ! k * (if k \<le> m' then xs ! (m' - k) else past' (k - m'))
          = b ! k * (if k \<le> m then (x # xs) ! (m - k) else past (k - m))"
      proof (cases "k \<le> m'")
        case True
        then have "m - k = Suc (m' - k)" using Suc by simp
        with True Suc show ?thesis by simp
      next
        case False
        show ?thesis
        proof (cases "k = m")
          case True
          with False Suc show ?thesis by (simp add: past'_def)
        next
          case neq: False
          with False Suc have "\<not> k \<le> m" "k - m' \<noteq> 1" "k - m' - 1 = k - m" by simp_all
          with False show ?thesis by (simp add: past'_def)
        qed
      qed
    qed
    finally show ?thesis .
  qed
qed

lemma length_fir_pass [simp]: "length (fir_pass b x0 xs) = length xs"
  by (simp add: fir_pass_def)

lemma nth_fir_pass:
  assumes "m < length xs"
  shows "fir_pass b x0 xs ! m = (\<Sum>k < length b. b ! k * (if k \<le> m then xs ! (m - k) else x0))"
proof -
  from assms have "[0..<length xs] ! m = m" by simp
  with assms show ?thesis unfolding fir_pass_def by (simp only: nth_map length_upt minus_nat.diff_0)
qed

lemma normalised_fir:
  assumes "a = 1 # replicate (length a - 1) 0" "length a \<le> length b"
  shows "normalised (max (length a) (length b)) (hd a) b = b"
    and "normalised (max (length a) (length b)) (hd a) a = 1 # replicate (length b - 1) 0"
proof -
  from assms(1) have hd: "hd a = 1" by (cases a) auto
  from assms(2) have mx: "max (length a) (length b) = length b" by simp
  show "normalised (max (length a) (length b)) (hd a) b = b"
    by (simp add: normalised_def hd mx)
  from assms(1) have la: "0 < length a" by (cases a) auto
  have "map (\<lambda>v. v / 1) a @ replicate (length b - length a) 0
      = (1 # replicate (length a - 1) 0) @ replicate (length b - length a) (0 :: real)"
    using assms(1) by simp
  also have "\<dots> = 1 # replicate (length a - 1 + (length b - length a)) 0"
    by (simp add: replicate_add)
  also from la assms(2) have "length a - 1 + (length b - length a) = length b - 1" by linarith
  finally show "normalised (max (length a) (length b)) (hd a) a = 1 # replicate (length b - 1) 0"
    by (simp add: normalised_def hd mx)
qed

lemma lfilter_zi_fir:
  assumes "a = 1 # replicate (length a - 1) 0" "length a \<le> length b" "2 \<le> length b"
  shows "lfilter_zi b a = Inr (map (\<lambda>i. \<Sum>k = i + 1..<length b. b ! k) [0..<length b - 1])"
proof -
  from assms(2) have mx: "max (length a) (length b) = length b" by simp
  note nf = normalised_fir [OF assms(1,2), unfolded mx]
  have s1: "sum_list (1 # replicate (length b - 1) (0 :: real)) = 1"
    by (simp add: sum_list_replicate)
  have "(\<Sum>k \<leftarrow> [i + 1..<length b]. b ! k - (1 # replicate (length b - 1) 0) ! k * g)
      = (\<Sum>k = i + 1..<length b. b ! k)" for i and g :: real
  proof -
    have "(\<Sum>k \<leftarrow> [i + 1..<length b]. b ! k - (1 # replicate (length b - 1) 0) ! k * g)
        = (\<Sum>k = i + 1..<length b. b ! k - (1 # replicate (length b - 1) 0) ! k * g)"
      by (simp add: interv_sum_list_conv_sum_set_nat)
    also have "\<dots> = (\<Sum>k = i + 1..<length b. b ! k)"
      by (intro sum.cong) auto
    finally show ?thesis .
  qed
  then show ?thesis
    using assms(3) unfolding lfilter_zi_def mx Let_def nf s1 by simp
qed

lemma lfilter_fir:
  assumes "a = 1 # replicate (length a - 1) 0" "length a \<le> length b" "2 \<le> length b"
    and zi: "zi = map (\<lambda>i. \<Sum>k = i + 1..<length b. b ! k) [0..<length b - 1]"
  shows "lfilter b a xs (map (\<lambda>z. z * x0) zi) = fir_pass b x0 xs"
proof (rule nth_equalityI)
  show "length (lfilter b a xs (map (\<lambda>z. z * x0) zi)) = length (fir_pass b x0 xs)"
    by simp
next
  fix m
  assume "m < length (lfilter b a xs (map (\<lambda>z. z * x0) zi))"
  then have m: "m < length xs" by simp
  define z where "z = map (\<lambda>z. z * x0) zi"
  from assms(2) have mx: "max (length a) (length b) = length b" by simp
  note nf = normalised_fir [OF assms(1,2), unfolded mx]
  have lz: "length z = length b - 1" by (simp add: z_def zi)
  have inv: "z ! i = (\<Sum>k = i + 1..<length b. b ! k * (\<lambda>j. x0) (k - i))"
    if "i < length b - 1" for i
    using that by (simp add: z_def zi sum_distrib_right)
  from assms(3) have pos: "0 < length b" by auto
  have "df2t b (1 # replicate (length b - 1) 0) z xs ! m
      = (\<Sum>k < length b. b ! k * (if k \<le> m then xs ! (m - k) else (\<lambda>j. x0) (k - m)))"
    using refl refl pos lz inv m by (rule df2t_fir)
  with m show "lfilter b a xs (map (\<lambda>z. z * x0) zi) ! m = fir_pass b x0 xs ! m"
    unfolding lfilter_def Let_def mx nf z_def [symmetric] by (simp add: nth_fir_pass)
qed

lemma filtfilt_fir:
  assumes "a = 1 # replicate (length a - 1) 0" "length a \<le> length b" "2 \<le> length b"
    and "3 * length b < length x"
  shows "filtfilt b a x = Inr (zero_phase_fir b x)"
proof -
  define zi where "zi = map (\<lambda>i. \<Sum>k = i + 1..<length b. b ! k) [0..<length b - 1]"
  define ext where "ext = odd_ext x (3 * length b)"
  define y where "y = lfilter b a ext (map (\<lambda>z. z * hd ext) zi)"
  define y' where "y' = rev (lfilter b a (rev y) (map (\<lambda>z. z * last y) zi))"
  from assms(2) have mx: "max (length a) (length b) = length b" by simp
  from assms(1) have a: "a \<noteq> []" "hd a \<noteq> 0" by (cases a; auto)+
  from assms(4) have long: "\<not> length x \<le> 3 * length b" by simp
  have zi: "lfilter_zi b a = Inr zi"
    unfolding zi_def using assms(1-3) by (rule lfilter_zi_fir)
  have "filtfilt b a x = Inr (take (length y' - 2 * (3 * length b)) (drop (3 * length b) y'))"
    unfolding filtfilt_def mx Let_def zi y'_def y_def ext_def using long a by simp
  moreover have y: "y = fir_pass b (hd ext) ext"
    unfolding y_def using assms(1-3) zi_def by (rule lfilter_fir)
  moreover have "y' = rev (fir_pass b (last y) (rev y))"
    unfolding y'_def using assms(1-3) zi_def by (simp only: lfilter_fir)
  moreover from assms(4) have "length ext = length x + 2 * (3 * length b)"
    unfolding ext_def by (rule length_odd_ext)
  ultimately show ?thesis
    by (simp add: zero_phase_fir_def Let_def ext_def)
qed

lemma fir_pass_moving_average:
  "fir_pass (replicate L (1 / real L)) x0 xs = moving_average L x0 xs"
proof -
  have "(\<Sum>k < L. replicate L (1 / real L) ! k * f k) = (\<Sum>k < L. f k) / real L"
    for f :: "nat \<Rightarrow> real"
  proof -
    have "(\<Sum>k < L. replicate L (1 / real L) ! k * f k) = (\<Sum>k < L. f k / real L)"
      by (intro sum.cong) simp_all
    then show ?thesis by (simp add: sum_divide_distrib)
  qed
  then show ?thesis
    by (simp add: fir_pass_def moving_average_def window_mean_def)
qed

lemma zero_phase_fir_moving_average:
  "zero_phase_fir (replicate L (1 / real L)) x = zero_phase_moving_average L x"
  unfolding zero_phase_fir_def zero_phase_moving_average_def fir_pass_moving_average
  by simp

lemma length_moving_average [simp]: "length (moving_average L x0 xs) = length xs"
  by (simp add: moving_average_def)

lemma length_zero_phase_moving_average:
  assumes "3 * L < length x"
  shows "length (zero_phase_moving_average L x) = length x"
proof -
  from assms have "length (odd_ext x (3 * L)) = length x + 2 * (3 * L)"
    by (rule length_odd_ext)
  then show ?thesis by (simp add: zero_phase_moving_average_def Let_def)
qed

lemma fir_pass_const:
  assumes "(\<Sum>k < length b. b ! k) = 1"
  shows "fir_pass b c (replicate M c) = replicate M c"
proof (rule nth_equalityI)
  show "length (fir_pass b c (replicate M c)) = length (replicate M c)" by simp
next
  fix m assume "m < length (fir_pass b c (replicate M c))"
  then have m: "m < M" by simp
  then have "fir_pass b c (replicate M c) ! m
      = (\<Sum>k < length b. b ! k * (if k \<le> m then replicate M c ! (m - k) else c))"
    by (simp add: nth_fir_pass)
  also have "\<dots> = (\<Sum>k < length b. b ! k * c)"
    using m by (intro sum.cong) auto
  also have "\<dots> = (\<Sum>k < length b. b ! k) * c"
    by (simp add: sum_distrib_right)
  finally show "fir_pass b c (replicate M c) ! m = replicate M c ! m"
    using assms m by simp
qed

lemma odd_ext_const:
  assumes "e < m"
  shows "odd_ext (replicate m c) e = replicate (m + 2 * e) c"
proof (cases "e < 1")
  case True
  then show ?thesis by (simp add: odd_ext_def)
next
  case False
  from assms have hd: "hd (replicate m c) = c" and last: "last (replicate m c) = c"
    by (cases m; simp)+
  from assms have mn: "min e (m - Suc 0) = e" by simp
  have "odd_ext (replicate m c) e = replicate e c @ replicate m c @ replicate e c"
    using False by (simp add: odd_ext_def hd last mn)
  also have "\<dots> = replicate (m + 2 * e) c"
    by (simp add: replicate_add [symmetric] add.commute mult_2)
  finally show ?thesis .
qed

lemma zero_phase_fir_const:
  assumes "(\<Sum>k < length b. b ! k) = 1" "3 * length b < m"
  shows "zero_phase_fir b (replicate m c) = replicate m c"
proof -
  define M where "M = m + 2 * (3 * length b)"
  from assms(2) have ext: "odd_ext (replicate m c) (3 * length b) = replicate M c"
    unfolding M_def by (rule odd_ext_const)
  from assms(2) have "0 < M" by (simp add: M_def)
  then have hd: "hd (replicate M c) = c" and last: "last (replicate M c) = c"
    by (cases M; simp)+
  have "zero_phase_fir b (replicate m c) = take m (drop (3 * length b) (replicate M c))"
    by (simp add: zero_phase_fir_def Let_def ext hd last fir_pass_const [OF assms(1)])
  also have "\<dots> = replicate m c" by (simp add: M_def min_def)
  finally show ?thesis .
qed

lemma filtfilt_butter_sample_const:
  assumes "18 < m"
  shows "filtfilt (replicate 6 (1 / 6)) (1 # replicate 5 0) (replicate m c) = Inr (replicate m c)"
proof -
  have s: "(\<Sum>k < length (replicate 6 (1 / 6 :: real)). replicate 6 (1 / 6 :: real) ! k) = 1"
    by (simp add: lessThan_Suc numeral_eq_Suc)
  have "filtfilt (replicate 6 (1 / 6)) (1 # replicate 5 0) (replicate m c)
      = Inr (zero_phase_fir (replicate 6 (1 / 6)) (replicate m c))"
    using assms by (intro filtfilt_fir) simp_all
  also have "zero_phase_fir (replicate 6 (1 / 6)) (replicate m c) = replicate m c"
    using s assms by (intro zero_phase_fir_const) simp_all
  finally show ?thesis .
qed

lemma filter_all_butter_sample_const:
  assumes "18 < m"
  shows "filter_all butter_sample (replicate m c) 248 5 10 100 = Inr (replicate m c)"
proof -
  have hi: "butter_highpass butter_sample 10 248 5 = Inr (replicate 6 (1 / 6), 1 # replicate 5 0)"
    by (simp add: butter_highpass_def butter_sample_def)
  have lo: "butter_lowpass butter_sample 100 248 5 = Inr (replicate 6 (1 / 6), 1 # replicate 5 0)"
    by (simp add: butter_lowpass_def butter_sample_def)
  show ?thesis
    by (simp add: filter_all_def hi lo filtfilt_butter_sample_const [OF assms])
qed

section \<open>Envelopes of sample signals\<close>

lemma fir_pass_unit: "fir_pass (1 # replicate j 0) x0 xs = xs"
proof (rule nth_equalityI)
  show "length (fir_pass (1 # replicate j 0) x0 xs) = length xs" by simp
next
  fix m assume "m < length (fir_pass (1 # replicate j 0) x0 xs)"
  then have m: "m < length xs" by simp
  have "(\<Sum>k < Suc j. (1 # replicate j 0) ! k * (if k \<le> m then xs ! (m - k) else x0))
      = (\<Sum>k < Suc j. if k = 0 then xs ! m else 0)"
    by (intro sum.cong) (auto simp: nth_Cons')
  also have "\<dots> = xs ! m" by simp
  finally show "fir_pass (1 # replicate j 0) x0 xs ! m = xs ! m"
    using m by (simp add: nth_fir_pass)
qed

lemma odd_ext_trim:
  assumes "e < length x"
  shows "take (length x) (drop e (odd_ext x e)) = x"
proof (cases "e < 1")
  case True
  then show ?thesis by (simp add: odd_ext_def)
next
  case False
  from assms have "length (take e (tl x)) = e" by simp
  with False show ?thesis by (simp add: odd_ext_def)
qed

lemma zero_phase_fir_unit:
  assumes "3 * Suc j < length x"
  shows "zero_phase_fir (1 # replicate j 0) x = x"
  using odd_ext_trim [of "3 * Suc j" x] assms
  by (simp add: zero_phase_fir_def Let_def fir_pass_unit)

lemma filter_all_butter_identity:
  assumes "3 * Suc order < length data" "1 \<le> order"
  shows "filter_all butter_identity data fs order cutoff_high cutoff_low
    = (if fs = 0 then Inl ZeroDivisionError else Inr data)"
proof (cases "fs = 0")
  case True
  then show ?thesis by (simp add: filter_all_def butter_highpass_def)
next
  case False
  have "filtfilt (1 # replicate order 0) (1 # replicate order 0) data
      = Inr (zero_phase_fir (1 # replicate order 0) data)"
    using assms by (intro filtfilt_fir) simp_all
  then have "filtfilt (1 # replicate order 0) (1 # replicate order 0) data = Inr data"
    using assms(1) by (simp add: zero_phase_fir_unit)
  with False show ?thesis
    by (simp add: filter_all_def butter_highpass_def butter_lowpass_def butter_identity_def)
qed

lemma zero_phase_moving_average_impulse:
  "zero_phase_moving_average 2 [0, 0, 0, 4, 0, 0, 0] = [0, 0, 1, 2, 1, 0, 0]"
  by (simp add: zero_phase_moving_average_def moving_average_def window_mean_def odd_ext_def
      Let_def upt_conv_Cons lessThan_Suc numeral_eq_Suc)

lemma zero_phase_moving_average_const:
  assumes "0 < L" "3 * L < m"
  shows "zero_phase_moving_average L (replicate m c) = replicate m c"
proof -
  have "(\<Sum>k < L. replicate L (1 / real L) ! k) = (\<Sum>k < L. 1 / real L)"
    by (intro sum.cong) simp_all
  with assms(1) have "(\<Sum>k < length (replicate L (1 / real L)). replicate L (1 / real L) ! k) = 1"
    by simp
  then have "zero_phase_fir (replicate L (1 / real L)) (replicate m c) = replicate m c"
    using assms(2) by (intro zero_phase_fir_const) simp_all
  then show ?thesis by (simp only: zero_phase_fir_moving_average)
qed

lemma process_signal_long:
  assumes "filter_all butter y fs order high low = Inr filtered" "2 \<le> L"
    "3 * L < length filtered"
  shows "process_signal butter y order high low fs L
    = Inr (zero_phase_moving_average L (map (\<lambda>v. v ^ 2) filtered))"
proof -
  from assms(2) have L: "0 < L" by simp
  have "filtfilt (replicate L (1 / real L)) [1] (map (\<lambda>v. v ^ 2) filtered)
      = Inr (zero_phase_fir (replicate L (1 / real L)) (map (\<lambda>v. v ^ 2) filtered))"
    using assms(2,3) by (intro filtfilt_fir) simp_all
  then show ?thesis
    using process_signal_filtered [OF assms(1) L]
    by (simp add: zero_phase_fir_moving_average)
qed

lemma process_signal_short:
  assumes "filter_all butter y fs order high low = Inr filtered" "0 < L"
    "length filtered \<le> 3 * L"
  shows "process_signal butter y order high low fs L = Inl ValueError"
proof -
  from assms(2,3)
  have "length (map (\<lambda>v. v ^ 2) filtered)
      \<le> 3 * max (length [1 :: real]) (length (map (\<lambda>v. v / real L) (replicate L (1 :: real))))"
    by simp
  then have "filtfilt (map (\<lambda>v. v / real L) (replicate L 1)) [1] (map (\<lambda>v. v ^ 2) filtered)
      = Inl ValueError"
    by (rule filtfilt_short)
  then show ?thesis using process_signal_filtered [OF assms(1,2)] by simp
qed

lemma process_signal_returns_nonempty:
  assumes "process_signal butter y order high low fs L = Inr averaged"
  shows "averaged \<noteq> []"
proof -
  from assms obtain b a x where "filtfilt b a x = Inr averaged"
    unfolding process_signal_def Let_def by (auto split: sum.splits)
  from filtfilt_length [OF this] show ?thesis by auto
qed

lemma process_signal_impulse:
  "process_signal butter_identity [0, 0, 0, 2, 0, 0, 0] 1 10 100 248 2 = Inr [0, 0, 1, 2, 1, 0, 0]"
proof -
  have "filter_all butter_identity [0, 0, 0, 2, 0, 0, 0] 248 1 10 100 = Inr [0, 0, 0, 2, 0, 0, 0]"
    by (simp add: filter_all_butter_identity)
  then have "process_signal butter_identity [0, 0, 0, 2, 0, 0, 0] 1 10 100 248 2
      = Inr (zero_phase_moving_average 2 (map (\<lambda>v. v ^ 2) [0, 0, 0, 2, 0, 0, 0]))"
    by (rule process_signal_long) simp_all
  then show ?thesis by (simp add: zero_phase_moving_average_impulse)
qed

lemma find_peaks_impulse:
  "find_peaks [0, 0, 1, 2, 1, 0, 0] (r_min_peak [0, 0, 1, 2, 1, 0, 0]) = [3]"
  by (simp add: find_peaks_def local_maxima_1d_def local_maxima_from.simps skip_equal.simps
      r_min_peak_def py_min_def py_max_def)

section \<open>Claims about the peak detector and the degenerate result\<close>

text \<open>
  C9. For a signal of length \<open>n\<close>, every index that the peak detector returns lies
  strictly between the end points, \<open>0 < index < n - 1\<close>, and the returned indices are
  strictly increasing.
\<close>

theorem peak_indices_interior_increasing:
  "(\<forall>p \<in> set (find_peaks averaged (r_min_peak averaged)). 0 < p \<and> p < length averaged - 1)
   \<and> sorted_wrt (<) (find_peaks averaged (r_min_peak averaged))"
proof
  show "\<forall>p \<in> set (find_peaks averaged (r_min_peak averaged)). 0 < p \<and> p < length averaged - 1"
  proof
    fix p assume "p \<in> set (find_peaks averaged (r_min_peak averaged))"
    then have "0 < p \<and> p + 1 < length averaged" by (rule find_peaks_bounds)
    then show "0 < p \<and> p < length averaged - 1" by linarith
  qed
next
  show "sorted_wrt (<) (find_peaks averaged (r_min_peak averaged))"
    by (rule find_peaks_sorted)
qed

text \<open>C9 on the signal \<open>0, 1, 0, 2, 0\<close>, whose peaks are at 1 and 3.\<close>

theorem peak_indices_interior_increasing_witness:
  "find_peaks [0, 1, 0, 2, 0] (r_min_peak [0, 1, 0, 2, 0]) = [1, 3]
   \<and> (0 :: nat) < 1 \<and> (3 :: nat) < length [0, 1, 0, 2, 0 :: real] - 1
   \<and> sorted_wrt (<) [1, 3 :: nat]"
proof -
  have fp: "find_peaks [0, 1, 0, 2, 0] (r_min_peak [0, 1, 0, 2, 0]) = [1, 3]"
    by (simp add: find_peaks_def local_maxima_1d_example r_min_peak_def py_min_def py_max_def)
  from peak_indices_interior_increasing [of "[0, 1, 0, 2, 0]"] fp show ?thesis
    by simp
qed

text \<open>
  C1. For every envelope signal that \<^verbatim>\<open>process_signal\<close> returns and in which the peak
  detector finds fewer than two peaks, \<^verbatim>\<open>give_bpm_and_hrv\<close> raises nothing and returns
  exactly the degenerate result: BPM 0, the three HRV values 0, no stress score. The
  external capability is not called, so the result is the same for every capability.
\<close>

theorem degenerate_result:
  assumes "process_signal butter y order high low fs L = Inr averaged"
    and "length (find_peaks averaged (r_min_peak averaged)) < 2"
  shows "give_bpm_and_hrv hrv averaged time_bw_fram =
           Inr \<lparr>BPM = Num 0, HRV = \<lparr>SDNN = Num 0, RMSSD = Num 0, pNN50 = Num 0\<rparr>,
                Stress_Score = None\<rparr>"
proof -
  from assms(1) have "averaged \<noteq> []" by (rule process_signal_returns_nonempty)
  with assms(2) show ?thesis
    by (simp add: give_bpm_and_hrv_def degenerate_def Let_def)
qed

text \<open>
  C1 on the envelope \<open>0, 0, 1, 2, 1, 0, 0\<close> of an impulse, which has the one peak at
  index 3, with a capability that would raise.
\<close>

theorem degenerate_result_witness:
  "process_signal butter_identity [0, 0, 0, 2, 0, 0, 0] 1 10 100 248 2 = Inr [0, 0, 1, 2, 1, 0, 0]
   \<and> find_peaks [0, 0, 1, 2, 1, 0, 0] (r_min_peak [0, 0, 1, 2, 1, 0, 0]) = [3]
   \<and> length [3 :: nat] < 2
   \<and> give_bpm_and_hrv hrv_failing [0, 0, 1, 2, 1, 0, 0] (1 / 30) =
        Inr \<lparr>BPM = Num 0, HRV = \<lparr>SDNN = Num 0, RMSSD = Num 0, pNN50 = Num 0\<rparr>,
             Stress_Score = None\<rparr>"
proof -
  note env = process_signal_impulse
  note fp = find_peaks_impulse
  have few: "length (find_peaks [0, 0, 1, 2, 1, 0, 0] (r_min_peak [0, 0, 1, 2, 1, 0, 0])) < 2"
    unfolding fp by simp
  from degenerate_result [OF env few, of hrv_failing "1 / 30"] env fp
  show ?thesis by simp
qed

text \<open>
  C4, amended. The threshold is \<open>min + (max - min) / 16\<close>. The peak detector returns, in
  ascending order, exactly the middle indices (rounded down) of the flat peaks whose
  value is at least the threshold. A strict local maximum is a flat peak of width one,
  so it is returned if and only if its value is at least the threshold: one equal to the
  threshold is a peak, one below it is not.
\<close>

theorem peak_detector_flat_peaks:
  "(averaged \<noteq> [] \<longrightarrow>
      r_min_peak averaged =
        Min (set averaged) + (Max (set averaged) - Min (set averaged)) / 16)
   \<and> sorted_wrt (<) (find_peaks averaged (r_min_peak averaged))
   \<and> set (find_peaks averaged (r_min_peak averaged)) =
       {p. \<exists>l r. flat_peak averaged l r \<and> p = (l + r) div 2 \<and> r_min_peak averaged \<le> averaged ! p}
   \<and> (\<forall>p. strict_local_max averaged p \<longrightarrow>
          (p \<in> set (find_peaks averaged (r_min_peak averaged))
             \<longleftrightarrow> r_min_peak averaged \<le> averaged ! p))"
proof (intro conjI allI impI)
  assume "averaged \<noteq> []"
  then show "r_min_peak averaged =
      Min (set averaged) + (Max (set averaged) - Min (set averaged)) / 16"
    by (simp add: r_min_peak_def py_min_Min py_max_Max)
next
  show "sorted_wrt (<) (find_peaks averaged (r_min_peak averaged))"
    by (rule find_peaks_sorted)
next
  show "set (find_peaks averaged (r_min_peak averaged)) =
      {p. \<exists>l r. flat_peak averaged l r \<and> p = (l + r) div 2 \<and> r_min_peak averaged \<le> averaged ! p}"
    by (rule set_find_peaks)
next
  fix p assume "strict_local_max averaged p"
  then have fp: "flat_peak averaged p p" by (simp add: strict_local_max_flat_peak)
  have "p \<in> set (local_maxima_1d averaged)"
    unfolding set_local_maxima_1d using fp by force
  then show "p \<in> set (find_peaks averaged (r_min_peak averaged))
      \<longleftrightarrow> r_min_peak averaged \<le> averaged ! p"
    by (simp add: find_peaks_def)
qed

text \<open>
  C4 on the signal \<open>0, 1, 0, 16, 0, 1/2, 0\<close>: the threshold is 1, the strict local
  maximum at index 1 equals it and is a peak, the one at index 5 is below it and is not.
\<close>

theorem peak_detector_flat_peaks_witness:
  "[0, 1, 0, 16, 0, 1 / 2, 0 :: real] \<noteq> []
   \<and> r_min_peak [0, 1, 0, 16, 0, 1 / 2, 0] = 1
   \<and> strict_local_max [0, 1, 0, 16, 0, 1 / 2, 0] 1
   \<and> strict_local_max [0, 1, 0, 16, 0, 1 / 2, 0] 5
   \<and> 1 \<in> set (find_peaks [0, 1, 0, 16, 0, 1 / 2, 0] (r_min_peak [0, 1, 0, 16, 0, 1 / 2, 0]))
   \<and> 5 \<notin> set (find_peaks [0, 1, 0, 16, 0, 1 / 2, 0] (r_min_peak [0, 1, 0, 16, 0, 1 / 2, 0]))"
proof -
  define x :: "real list" where "x = [0, 1, 0, 16, 0, 1 / 2, 0]"
  have ne: "x \<noteq> []" by (simp add: x_def)
  have thr: "r_min_peak x = 1"
    using peak_detector_flat_peaks [of x] ne by (simp add: x_def)
  have m1: "strict_local_max x 1" and m5: "strict_local_max x 5"
    by (simp_all add: strict_local_max_def x_def)
  have iff: "p \<in> set (find_peaks x (r_min_peak x)) \<longleftrightarrow> r_min_peak x \<le> x ! p"
    if "strict_local_max x p" for p
    using peak_detector_flat_peaks [of x] that by blast
  have "r_min_peak x \<le> x ! 1" "\<not> r_min_peak x \<le> x ! 5"
    unfolding thr by (simp_all add: x_def)
  with iff [OF m1] iff [OF m5]
  have "1 \<in> set (find_peaks x (r_min_peak x))" "5 \<notin> set (find_peaks x (r_min_peak x))"
    by blast+
  with ne thr m1 m5 show ?thesis unfolding x_def by blast
qed

text \<open>
  C4 as stated fails on \<open>0, 1, 1, 0\<close>: index 1 is returned, and it is not greater than
  its right neighbour.
\<close>

theorem peak_detector_plateau_counterexample:
  "find_peaks [0, 1, 1, 0] (r_min_peak [0, 1, 1, 0]) = [1]
   \<and> \<not> strict_local_max [0, 1, 1, 0] 1"
  by (simp add: find_peaks_def local_maxima_1d_plateau r_min_peak_def py_min_def py_max_def
      strict_local_max_def)

section \<open>Claims about the interval analyzer\<close>

text \<open>
  C3. For every peak set of at least two strictly increasing indices and every positive
  sample interval, the RR series has one element less than the peak set, its \<open>i\<close>-th
  element is \<open>(PeakSet[i+1] - PeakSet[i]) * sample_interval\<close>, and the BPM is the number
  \<open>60 / mean(RR)\<close> (neither \<open>nan\<close> nor an infinity). When these are the peaks found in
  an envelope, every result of \<^verbatim>\<open>give_bpm_and_hrv\<close> reports this BPM and the HRV
  metrics of this series, and \<^verbatim>\<open>give_bpm_and_hrv\<close> returns such a result whenever the
  external capability returns.
\<close>

theorem interval_analyzer_rr_bpm:
  assumes "sorted_wrt (<) r_peaks" "2 \<le> length r_peaks" "0 < t"
  shows "length (rr_intervals_of r_peaks t) = length r_peaks - 1
    \<and> (\<forall>i < length r_peaks - 1.
          rr_intervals_of r_peaks t ! i =
            real_of_int (int (r_peaks ! (i + 1)) - int (r_peaks ! i)) * t)
    \<and> bpm_of (rr_intervals_of r_peaks t) =
        Num (60 / (sum_list (rr_intervals_of r_peaks t)
                     / real (length (rr_intervals_of r_peaks t))))
    \<and> (\<forall>averaged. find_peaks averaged (r_min_peak averaged) = r_peaks \<longrightarrow>
          (\<forall>res. give_bpm_and_hrv hrv averaged t = Inr res \<longrightarrow>
             BPM res = Num (60 / (sum_list (rr_intervals_of r_peaks t)
                                    / real (length (rr_intervals_of r_peaks t))))
             \<and> calculate_hrv (rr_intervals_of r_peaks t) = Inr (HRV res))
          \<and> (\<exists>bp h. binary_peaks r_peaks = Inr bp
                \<and> calculate_hrv (rr_intervals_of r_peaks t) = Inr h
                \<and> (\<forall>m. hrv bp (py_int (1 / t)) = Inr m \<longrightarrow>
                      give_bpm_and_hrv hrv averaged t =
                        Inr \<lparr>BPM = Num (60 / (sum_list (rr_intervals_of r_peaks t)
                                              / real (length (rr_intervals_of r_peaks t)))),
                             HRV = h, Stress_Score = m ''HRV_SI''\<rparr>)))"
proof -
  define rr where "rr = rr_intervals_of r_peaks t"
  have len: "length rr = length r_peaks - 1" by (simp add: rr_def)
  have nth: "rr ! i = real_of_int (int (r_peaks ! (i + 1)) - int (r_peaks ! i)) * t"
    if "i < length r_peaks - 1" for i
    unfolding rr_def using that by (rule nth_rr_intervals_of)
  from assms(2) have ne: "rr \<noteq> []" by (simp add: rr_def rr_intervals_of_def)
  have pos: "0 < v" if "v \<in> set rr" for v
    using assms(1) assms(3) that unfolding rr_def by (rule rr_intervals_of_positive)
  have bpm: "bpm_of rr = Num (60 / (sum_list rr / real (length rr)))"
    using ne pos by (rule bpm_of_positive(1))
  from assms(2) have "r_peaks \<noteq> []" by auto
  then obtain bp where bp: "binary_peaks r_peaks = Inr bp"
    using binary_peaks_returns assms(1) by blast
  obtain h where h: "calculate_hrv rr = Inr h"
    using calculate_hrv_returns [OF ne] by blast
  from assms(3) have t: "t \<noteq> 0" by simp
  have run: "give_bpm_and_hrv hrv averaged t =
      (case hrv bp (py_int (1 / t)) of
         Inl e \<Rightarrow> Inl e
       | Inr m \<Rightarrow> Inr \<lparr>BPM = Num (60 / (sum_list rr / real (length rr))), HRV = h,
                        Stress_Score = m ''HRV_SI''\<rparr>)"
    if "find_peaks averaged (r_min_peak averaged) = r_peaks" for averaged
  proof -
    have "give_bpm_and_hrv hrv averaged t =
        (case hrv bp (py_int (1 / t)) of
           Inl e \<Rightarrow> Inl e
         | Inr m \<Rightarrow> Inr \<lparr>BPM = bpm_of (rr_intervals_of r_peaks t), HRV = h,
                          Stress_Score = m ''HRV_SI''\<rparr>)"
      using that assms(2) t bp h [unfolded rr_def] by (rule give_bpm_and_hrv_nondegenerate)
    then show ?thesis by (simp only: bpm [unfolded rr_def] rr_def)
  qed
  have ret: "BPM res = Num (60 / (sum_list rr / real (length rr))) \<and> calculate_hrv rr = Inr (HRV res)"
    if "find_peaks averaged (r_min_peak averaged) = r_peaks"
      and "give_bpm_and_hrv hrv averaged t = Inr res" for averaged res
    using run [OF that(1)] that(2) h by (auto split: sum.splits)
  have give: "give_bpm_and_hrv hrv averaged t =
      Inr \<lparr>BPM = Num (60 / (sum_list rr / real (length rr))), HRV = h,
           Stress_Score = m ''HRV_SI''\<rparr>"
    if "find_peaks averaged (r_min_peak averaged) = r_peaks"
      and "hrv bp (py_int (1 / t)) = Inr m" for averaged m
    using run [OF that(1)] that(2) by simp
  from len nth bpm ret bp h give show ?thesis unfolding rr_def by blast
qed

text \<open>
  C3 on the envelope \<open>0, 1, 0, 2, 0, 0, 3, 0\<close> at 30 samples per second: peaks at 1, 3
  and 6, RR intervals of 1/15 s and 1/10 s, BPM 720.
\<close>

theorem interval_analyzer_rr_bpm_witness:
  "sorted_wrt (<) [1, 3, 6 :: nat] \<and> 2 \<le> length [1, 3, 6 :: nat] \<and> (0 :: real) < 1 / 30
   \<and> find_peaks [0, 1, 0, 2, 0, 0, 3, 0] (r_min_peak [0, 1, 0, 2, 0, 0, 3, 0]) = [1, 3, 6]
   \<and> rr_intervals_of [1, 3, 6] (1 / 30) = [1 / 15, 1 / 10]
   \<and> bpm_of (rr_intervals_of [1, 3, 6] (1 / 30)) = Num 720
   \<and> (\<exists>h. calculate_hrv [1 / 15, 1 / 10] = Inr h
          \<and> give_bpm_and_hrv hrv_absent [0, 1, 0, 2, 0, 0, 3, 0] (1 / 30) =
              Inr \<lparr>BPM = Num 720, HRV = h, Stress_Score = None\<rparr>)"
proof -
  have h1: "sorted_wrt (<) [1, 3, 6 :: nat]" and h2: "2 \<le> length [1, 3, 6 :: nat]"
    and h3: "(0 :: real) < 1 / 30" by simp_all
  note fp = find_peaks_three
  have rr: "rr_intervals_of [1, 3, 6] (1 / 30) = [1 / 15, 1 / 10]"
    by (simp add: rr_intervals_of_def upt_conv_Cons)
  have mean: "60 / (sum_list [1 / 15, 1 / 10 :: real] / real (length [1 / 15, 1 / 10 :: real])) = 720"
    by simp
  have bp: "binary_peaks [1, 3, 6] = Inr [0, 1, 0, 1, 0, 0, 1]"
    by (simp add: binary_peaks_def numeral_eq_Suc)
  have cap: "hrv_absent [0, 1, 0, 1, 0, 0, 1] (py_int (1 / (1 / 30))) = Inr Map.empty"
    by (simp add: hrv_absent_def)
  note inst = interval_analyzer_rr_bpm [OF h1 h2 h3, of hrv_absent, unfolded rr mean]
  from inst have bpm: "bpm_of [1 / 15, 1 / 10] = Num 720" by blast
  from inst fp obtain bp' h where
    bp': "binary_peaks [1, 3, 6] = Inr bp'"
    and h: "calculate_hrv [1 / 15, 1 / 10] = Inr h"
    and run: "\<And>m. hrv_absent bp' (py_int (1 / (1 / 30))) = Inr m \<Longrightarrow>
        give_bpm_and_hrv hrv_absent [0, 1, 0, 2, 0, 0, 3, 0] (1 / 30) =
          Inr \<lparr>BPM = Num 720, HRV = h, Stress_Score = m ''HRV_SI''\<rparr>"
    by blast
  from bp bp' have "bp' = [0, 1, 0, 1, 0, 0, 1]" by simp
  with run [of Map.empty] cap
  have "give_bpm_and_hrv hrv_absent [0, 1, 0, 2, 0, 0, 3, 0] (1 / 30) =
      Inr \<lparr>BPM = Num 720, HRV = h, Stress_Score = None\<rparr>"
    by simp
  with h1 h2 h3 fp rr bpm h show ?thesis unfolding rr by blast
qed

text \<open>
  C10. For every envelope signal and every positive sample interval: when at least two
  peaks are detected, every RR interval is positive and the BPM computed from them is a
  positive number; and whenever \<^verbatim>\<open>give_bpm_and_hrv\<close> returns a result, its BPM is that
  number in the non-degenerate branch, and it is 0 if and only if fewer than two peaks
  were detected.
\<close>

theorem bpm_zero_iff_degenerate:
  assumes "0 < t"
  shows "(2 \<le> length (find_peaks averaged (r_min_peak averaged)) \<longrightarrow>
            (\<forall>v \<in> set (rr_intervals_of (find_peaks averaged (r_min_peak averaged)) t). 0 < v)
            \<and> (\<exists>b. bpm_of (rr_intervals_of (find_peaks averaged (r_min_peak averaged)) t)
                      = Num b \<and> 0 < b))
     \<and> (\<forall>res. give_bpm_and_hrv hrv averaged t = Inr res \<longrightarrow>
            (2 \<le> length (find_peaks averaged (r_min_peak averaged)) \<longrightarrow>
               BPM res = bpm_of (rr_intervals_of (find_peaks averaged (r_min_peak averaged)) t))
            \<and> (BPM res = Num 0 \<longleftrightarrow>
                 length (find_peaks averaged (r_min_peak averaged)) < 2))"
proof -
  define ps where "ps = find_peaks averaged (r_min_peak averaged)"
  have srt: "sorted_wrt (<) ps" unfolding ps_def by (rule find_peaks_sorted)
  have rr_pos: "0 < v" if "v \<in> set (rr_intervals_of ps t)" for v
    using srt assms that by (rule rr_intervals_of_positive)
  have bpm_pos: "\<exists>b. bpm_of (rr_intervals_of ps t) = Num b \<and> 0 < b" if "2 \<le> length ps"
  proof -
    from that have ne: "rr_intervals_of ps t \<noteq> []" by (simp add: rr_intervals_of_def)
    from bpm_of_positive [OF ne rr_pos] show ?thesis by blast
  qed
  have res: "(2 \<le> length ps \<longrightarrow> BPM res = bpm_of (rr_intervals_of ps t))
      \<and> (BPM res = Num 0 \<longleftrightarrow> length ps < 2)"
    if ret: "give_bpm_and_hrv hrv averaged t = Inr res" for res
  proof (cases "2 \<le> length ps")
    case True
    with ret have eq: "BPM res = bpm_of (rr_intervals_of ps t)"
      unfolding ps_def by (intro give_bpm_and_hrv_many)
    from bpm_pos [OF True] obtain b where "bpm_of (rr_intervals_of ps t) = Num b" "0 < b"
      by blast
    with eq True show ?thesis by simp
  next
    case False
    then have "length ps < 2" by simp
    with ret have "res = degenerate" unfolding ps_def by (intro give_bpm_and_hrv_few)
    with False show ?thesis by (simp add: degenerate_def)
  qed
  from rr_pos bpm_pos res show ?thesis unfolding ps_def by blast
qed

text \<open>
  C10 on the signal \<open>0, 1, 0, 2, 0\<close> at 30 samples per second: two peaks, one RR interval
  of 1/15 s, BPM 900.
\<close>

theorem bpm_zero_iff_degenerate_witness:
  "(0 :: real) < 1 / 30
   \<and> give_bpm_and_hrv hrv_absent [0, 1, 0, 2, 0] (1 / 30) =
       Inr \<lparr>BPM = Num 900, HRV = \<lparr>SDNN = Num 0, RMSSD = NaN, pNN50 = Num 0\<rparr>,
            Stress_Score = None\<rparr>
   \<and> \<not> length (find_peaks [0, 1, 0, 2, 0] (r_min_peak [0, 1, 0, 2, 0])) < 2
   \<and> bpm_of (rr_intervals_of (find_peaks [0, 1, 0, 2, 0] (r_min_peak [0, 1, 0, 2, 0])) (1 / 30))
       = Num 900"
proof -
  define res :: "real bpm_hrv" where
    "res = \<lparr>BPM = Num 900, HRV = \<lparr>SDNN = Num 0, RMSSD = NaN, pNN50 = Num 0\<rparr>,
            Stress_Score = None\<rparr>"
  define ps where "ps = find_peaks [0, 1, 0, 2, 0] (r_min_peak [0, 1, 0, 2, 0])"
  have pos: "(0 :: real) < 1 / 30" by simp
  have ret: "give_bpm_and_hrv hrv_absent [0, 1, 0, 2, 0] (1 / 30) = Inr res"
    unfolding res_def by (rule give_bpm_and_hrv_example)
  have bpm: "BPM res = Num 900" "BPM res \<noteq> Num 0" by (simp_all add: res_def)
  from bpm_zero_iff_degenerate [OF pos, of "[0, 1, 0, 2, 0]" hrv_absent] ret
  have many: "2 \<le> length ps \<longrightarrow> BPM res = bpm_of (rr_intervals_of ps (1 / 30))"
    and iff: "BPM res = Num 0 \<longleftrightarrow> length ps < 2"
    unfolding ps_def by blast+
  from iff bpm(2) have few: "\<not> length ps < 2" by blast
  with many bpm(1) have "bpm_of (rr_intervals_of ps (1 / 30)) = Num 900" by simp
  with pos ret few show ?thesis unfolding ps_def res_def by blast
qed

section \<open>Claims about the HRV calculator\<close>

text \<open>
  C2. For every RR series of at least two intervals, \<^verbatim>\<open>calculate_hrv\<close> returns SDNN equal
  to the population standard deviation of the intervals in milliseconds, RMSSD equal to
  the square root of the mean of their squared successive differences, and pNN50 equal
  to 100 times the number of successive differences above 50 ms in absolute value,
  divided by the number of RR intervals.
\<close>

theorem calculate_hrv_formulas:
  assumes "2 \<le> length rr"
  shows "calculate_hrv rr =
    Inr \<lparr>SDNN = Num (spec_sdnn rr), RMSSD = Num (spec_rmssd rr), pNN50 = Num (spec_pnn50 rr)\<rparr>"
proof -
  define ms where "ms = map (\<lambda>v. v * 1000) rr"
  define n where "n = length rr"
  have len: "length ms = n" and nth: "\<And>i. i < n \<Longrightarrow> ms ! i = rr_ms rr i"
    by (simp_all add: ms_def n_def rr_ms_def)
  from assms have ne: "ms \<noteq> []" and dne: "np_diff ms \<noteq> []"
    by (auto simp: ms_def simp flip: length_greater_0_conv)
  define mu where "mu = (\<Sum>i < n. rr_ms rr i) / real n"
  have "sum_list ms = (\<Sum>i < n. rr_ms rr i)"
    using sum_list_nth_sum [of "\<lambda>v. v" ms] by (simp add: len nth)
  with ne have mean: "np_mean ms = Num mu"
    by (simp add: np_mean_def mu_def len)
  have "np_std ms = np_sqrt (np_mean (map (\<lambda>v. \<bar>v - mu\<bar> ^ 2) ms))"
    by (simp add: np_std_def mean)
  also have "\<dots> = Num (sqrt (sum_list (map (\<lambda>v. \<bar>v - mu\<bar> ^ 2) ms) / real (length ms)))"
    using ne by (rule np_sqrt_mean_squares)
  also have "sum_list (map (\<lambda>v. \<bar>v - mu\<bar> ^ 2) ms) = (\<Sum>i < n. (rr_ms rr i - mu) ^ 2)"
    using sum_list_nth_sum [of "\<lambda>v. \<bar>v - mu\<bar> ^ 2" ms] by (simp add: len nth)
  finally have sdnn: "np_std ms = Num (spec_sdnn rr)"
    by (simp add: spec_sdnn_def Let_def mu_def len flip: n_def)
  have "np_sqrt (np_mean (map (\<lambda>d. d ^ 2) (np_diff ms)))
      = Num (sqrt (sum_list (map (\<lambda>d. d ^ 2) (np_diff ms)) / real (length (np_diff ms))))"
    using dne by (rule np_sqrt_mean_squares)
  also have "sum_list (map (\<lambda>d. d ^ 2) (np_diff ms))
      = (\<Sum>i < n - 1. (rr_ms rr (i + 1) - rr_ms rr i) ^ 2)"
    using sum_list_np_diff [of "\<lambda>d. d ^ 2" ms] by (simp add: len nth)
  finally have rmssd: "np_sqrt (np_mean (map (\<lambda>d. d ^ 2) (np_diff ms))) = Num (spec_rmssd rr)"
    by (simp add: spec_rmssd_def Let_def len flip: n_def)
  have "{i. i < length ms - 1 \<and> 50 < \<bar>ms ! (i + 1) - ms ! i\<bar>}
      = {i. i < n - 1 \<and> 50 < \<bar>rr_ms rr (i + 1) - rr_ms rr i\<bar>}"
    by (auto simp: len nth)
  then have "length (filter (\<lambda>d. \<bar>d\<bar> > 50) (np_diff ms))
      = card {i. i < n - 1 \<and> \<bar>rr_ms rr (i + 1) - rr_ms rr i\<bar> > 50}"
    using length_filter_np_diff [of "\<lambda>d. \<bar>d\<bar> > 50" ms] by simp
  then have pnn: "real (length (filter (\<lambda>d. \<bar>d\<bar> > 50) (np_diff ms))) / real (length ms) * 100
      = spec_pnn50 rr"
    by (simp add: spec_pnn50_def Let_def len flip: n_def)
  from ne have "length ms \<noteq> 0" by simp
  then show ?thesis
    unfolding calculate_hrv_def Let_def ms_def [symmetric]
    by (simp only: sdnn rmssd pnn if_False)
qed

text \<open>
  C2 on the intervals 0.8, 0.82, 0.78, 0.85 s: the variance is 668.75, the mean squared
  difference 2300, and one difference of four intervals exceeds 50 ms.
\<close>

theorem calculate_hrv_formulas_witness:
  "2 \<le> length [0.8, 0.82, 0.78, 0.85 :: real]
   \<and> calculate_hrv [0.8, 0.82, 0.78, 0.85] =
       Inr \<lparr>SDNN = Num (sqrt 668.75), RMSSD = Num (sqrt 2300), pNN50 = Num 25\<rparr>
   \<and> spec_sdnn [0.8, 0.82, 0.78, 0.85] = sqrt 668.75
   \<and> spec_rmssd [0.8, 0.82, 0.78, 0.85] = sqrt 2300
   \<and> spec_pnn50 [0.8, 0.82, 0.78, 0.85] = 25"
proof -
  have len: "2 \<le> length [0.8, 0.82, 0.78, 0.85 :: real]" by simp
  from calculate_hrv_formulas [OF len] calculate_hrv_example
  have "\<lparr>SDNN = Num (spec_sdnn [0.8, 0.82, 0.78, 0.85]),
         RMSSD = Num (spec_rmssd [0.8, 0.82, 0.78, 0.85]),
         pNN50 = Num (spec_pnn50 [0.8, 0.82, 0.78, 0.85])\<rparr>
      = \<lparr>SDNN = Num (sqrt 668.75), RMSSD = Num (sqrt 2300), pNN50 = Num 25\<rparr>"
    by (simp only: sum.inject)
  then have "spec_sdnn [0.8, 0.82, 0.78, 0.85] = sqrt 668.75"
    "spec_rmssd [0.8, 0.82, 0.78, 0.85] = sqrt 2300"
    "spec_pnn50 [0.8, 0.82, 0.78, 0.85] = 25"
    by (simp_all only: hrv_metrics.ext_inject npfloat.inject)
  with len calculate_hrv_example show ?thesis by blast
qed

text \<open>
  C5, amended. On the empty series \<^verbatim>\<open>calculate_hrv\<close> raises \<^verbatim>\<open>ZeroDivisionError\<close>, from
  \<open>0 / 0\<close> in pNN50. On a series of one interval it raises nothing and returns SDNN 0
  and pNN50 0, and RMSSD \<open>nan\<close>, the mean of an empty array of differences.
\<close>

theorem calculate_hrv_short:
  "calculate_hrv [] = Inl ZeroDivisionError
   \<and> calculate_hrv [v] = Inr \<lparr>SDNN = Num 0, RMSSD = NaN, pNN50 = Num 0\<rparr>"
  by (simp add: calculate_hrv_def np_std_def np_mean_def)

text \<open>C5 as stated fails on the empty series and on the series of the one interval 0.8 s.\<close>

theorem calculate_hrv_short_counterexample:
  "calculate_hrv [] = Inl ZeroDivisionError
   \<and> calculate_hrv [0.8] = Inr \<lparr>SDNN = Num 0, RMSSD = NaN, pNN50 = Num 0\<rparr>"
  by (simp add: calculate_hrv_def np_std_def np_mean_def)

section \<open>Claims about the stress estimator\<close>

text \<open>
  C7, amended. For every non-empty peak set (strictly increasing indices),
  \<^verbatim>\<open>calculate_stress_score\<close> builds a pulse train of length \<open>last_peak_index + 1\<close> with 1
  exactly at the peak indices and 0 elsewhere and passes it to the external capability.
  When the capability returns a table, the result is its \<^verbatim>\<open>HRV_SI\<close> entry, null when
  there is none, and that is the stress score of the result of \<^verbatim>\<open>give_bpm_and_hrv\<close>.
  When the capability raises, the exception propagates out of
  \<^verbatim>\<open>calculate_stress_score\<close> and out of \<^verbatim>\<open>give_bpm_and_hrv\<close>.
\<close>

theorem stress_estimator_pulse_train:
  assumes "peak_indices \<noteq> []" "sorted_wrt (<) peak_indices"
  shows "\<exists>b. binary_peaks peak_indices = Inr b
      \<and> length b = last peak_indices + 1
      \<and> (\<forall>i < length b. b ! i = (if i \<in> set peak_indices then 1 else 0))
      \<and> (\<forall>m. hrv b sampling_rate = Inr m \<longrightarrow>
            calculate_stress_score hrv peak_indices sampling_rate = Inr (m ''HRV_SI''))
      \<and> (\<forall>e. hrv b sampling_rate = Inl e \<longrightarrow>
            calculate_stress_score hrv peak_indices sampling_rate = Inl e)
      \<and> (\<forall>averaged t m. find_peaks averaged (r_min_peak averaged) = peak_indices
              \<and> 2 \<le> length peak_indices \<and> t \<noteq> 0
              \<and> hrv b (py_int (1 / t)) = Inr m \<longrightarrow>
            (\<exists>res. give_bpm_and_hrv hrv averaged t = Inr res
                \<and> Stress_Score res = m ''HRV_SI''))
      \<and> (\<forall>averaged t e. find_peaks averaged (r_min_peak averaged) = peak_indices
              \<and> 2 \<le> length peak_indices \<and> t \<noteq> 0
              \<and> hrv b (py_int (1 / t)) = Inl e \<longrightarrow>
            give_bpm_and_hrv hrv averaged t = Inl e)"
proof -
  define b where
    "b = fold (\<lambda>p b. b[p := 1]) peak_indices (replicate (last peak_indices + 1) (0 :: real))"
  have bp: "binary_peaks peak_indices = Inr b"
    unfolding b_def using assms by (rule binary_peaks_sorted)
  have len: "length b = last peak_indices + 1" by (simp add: b_def)
  have nth: "b ! i = (if i \<in> set peak_indices then 1 else 0)" if "i < length b" for i
  proof -
    from that len have i: "i < last peak_indices + 1" by simp
    then have "i < length (replicate (last peak_indices + 1) (0 :: real))"
      by (simp only: length_replicate)
    then have "b ! i
        = (if i \<in> set peak_indices then 1 else replicate (last peak_indices + 1) 0 ! i)"
      unfolding b_def by (rule nth_fold_update)
    also from i have "replicate (last peak_indices + 1) (0 :: real) ! i = 0"
      by (rule nth_replicate)
    finally show ?thesis .
  qed
  have ret: "calculate_stress_score hrv peak_indices sampling_rate = Inr (m ''HRV_SI'')"
    if "hrv b sampling_rate = Inr m" for m
    using that by (simp add: calculate_stress_score_def bp)
  have exc: "calculate_stress_score hrv peak_indices sampling_rate = Inl e"
    if "hrv b sampling_rate = Inl e" for e
    using that by (simp add: calculate_stress_score_def bp)
  have run: "\<exists>h. give_bpm_and_hrv hrv averaged t =
      (case hrv b (py_int (1 / t)) of
         Inl e \<Rightarrow> Inl e
       | Inr m \<Rightarrow> Inr \<lparr>BPM = bpm_of (rr_intervals_of peak_indices t), HRV = h,
                        Stress_Score = m ''HRV_SI''\<rparr>)"
    if peaks: "find_peaks averaged (r_min_peak averaged) = peak_indices"
      and many: "2 \<le> length peak_indices" and t: "t \<noteq> 0" for averaged t
  proof -
    from many have "rr_intervals_of peak_indices t \<noteq> []"
      by (simp add: rr_intervals_of_def)
    then obtain h where h: "calculate_hrv (rr_intervals_of peak_indices t) = Inr h"
      using calculate_hrv_returns by blast
    from give_bpm_and_hrv_nondegenerate [OF peaks many t bp h, of hrv]
    show ?thesis by blast
  qed
  have g_ret: "\<exists>res. give_bpm_and_hrv hrv averaged t = Inr res
      \<and> Stress_Score res = m ''HRV_SI''"
    if "find_peaks averaged (r_min_peak averaged) = peak_indices
        \<and> 2 \<le> length peak_indices \<and> t \<noteq> 0 \<and> hrv b (py_int (1 / t)) = Inr m"
    for averaged t m
  proof -
    from that run [of averaged t] obtain h where
      "give_bpm_and_hrv hrv averaged t =
        (case hrv b (py_int (1 / t)) of
           Inl e \<Rightarrow> Inl e
         | Inr m \<Rightarrow> Inr \<lparr>BPM = bpm_of (rr_intervals_of peak_indices t), HRV = h,
                          Stress_Score = m ''HRV_SI''\<rparr>)"
      by blast
    with that show ?thesis by simp
  qed
  have g_exc: "give_bpm_and_hrv hrv averaged t = Inl e"
    if "find_peaks averaged (r_min_peak averaged) = peak_indices
        \<and> 2 \<le> length peak_indices \<and> t \<noteq> 0 \<and> hrv b (py_int (1 / t)) = Inl e"
    for averaged t e
  proof -
    from that run [of averaged t] obtain h where
      "give_bpm_and_hrv hrv averaged t =
        (case hrv b (py_int (1 / t)) of
           Inl e \<Rightarrow> Inl e
         | Inr m \<Rightarrow> Inr \<lparr>BPM = bpm_of (rr_intervals_of peak_indices t), HRV = h,
                          Stress_Score = m ''HRV_SI''\<rparr>)"
      by blast
    with that show ?thesis by simp
  qed
  from bp len nth ret exc g_ret g_exc show ?thesis by blast
qed

text \<open>
  C7 on the peaks 1 and 3 of the envelope \<open>0, 1, 0, 2, 0\<close>: the pulse train is
  \<open>0, 1, 0, 1\<close>; a table without the metric gives null, a table with it gives the
  metric, a raising capability gives its exception, in both functions.
\<close>

theorem stress_estimator_pulse_train_witness:
  "[1, 3 :: nat] \<noteq> [] \<and> sorted_wrt (<) [1, 3 :: nat]
   \<and> binary_peaks [1, 3] = Inr [0, 1, 0, 1]
   \<and> calculate_stress_score hrv_absent [1, 3] 30 = Inr None
   \<and> calculate_stress_score hrv_present [1, 3] 30 = Inr (Some 2)
   \<and> calculate_stress_score hrv_failing [1, 3] 30 = Inl ExternalError
   \<and> find_peaks [0, 1, 0, 2, 0] (r_min_peak [0, 1, 0, 2, 0]) = [1, 3]
   \<and> (\<exists>res. give_bpm_and_hrv hrv_present [0, 1, 0, 2, 0] (1 / 30) = Inr res
          \<and> Stress_Score res = Some 2)
   \<and> give_bpm_and_hrv hrv_failing [0, 1, 0, 2, 0] (1 / 30) = Inl ExternalError"
proof -
  have ne: "[1, 3 :: nat] \<noteq> []" and srt: "sorted_wrt (<) [1, 3 :: nat]"
    and many: "2 \<le> length [1, 3 :: nat]" and t: "(1 / 30 :: real) \<noteq> 0" by simp_all
  have fp: "find_peaks [0, 1, 0, 2, 0] (r_min_peak [0, 1, 0, 2, 0]) = [1, 3]"
    by (simp add: find_peaks_def local_maxima_1d_example r_min_peak_def py_min_def py_max_def)
  have rate: "py_int (1 / (1 / 30)) = 30" by (simp add: py_int_def)
  have facts: "(\<forall>m. hrv [0, 1, 0, 1] 30 = Inr m \<longrightarrow>
        calculate_stress_score hrv [1, 3] 30 = Inr (m ''HRV_SI''))
      \<and> (\<forall>e. hrv [0, 1, 0, 1] 30 = Inl e \<longrightarrow> calculate_stress_score hrv [1, 3] 30 = Inl e)
      \<and> (\<forall>m. hrv [0, 1, 0, 1] 30 = Inr m \<longrightarrow>
            (\<exists>res. give_bpm_and_hrv hrv [0, 1, 0, 2, 0] (1 / 30) = Inr res
                \<and> Stress_Score res = m ''HRV_SI''))
      \<and> (\<forall>e. hrv [0, 1, 0, 1] 30 = Inl e \<longrightarrow>
            give_bpm_and_hrv hrv [0, 1, 0, 2, 0] (1 / 30) = Inl e)"
    for hrv :: "real hrv_capability"
  proof -
    from stress_estimator_pulse_train [OF ne srt, of hrv 30] obtain b where
      b: "binary_peaks [1, 3] = Inr b"
      and r: "\<forall>m. hrv b 30 = Inr m \<longrightarrow> calculate_stress_score hrv [1, 3] 30 = Inr (m ''HRV_SI'')"
      and x: "\<forall>e. hrv b 30 = Inl e \<longrightarrow> calculate_stress_score hrv [1, 3] 30 = Inl e"
      and gr: "\<forall>averaged t m. find_peaks averaged (r_min_peak averaged) = [1, 3]
              \<and> 2 \<le> length [1, 3 :: nat] \<and> t \<noteq> 0 \<and> hrv b (py_int (1 / t)) = Inr m \<longrightarrow>
            (\<exists>res. give_bpm_and_hrv hrv averaged t = Inr res
                \<and> Stress_Score res = m ''HRV_SI'')"
      and gx: "\<forall>averaged t e. find_peaks averaged (r_min_peak averaged) = [1, 3]
              \<and> 2 \<le> length [1, 3 :: nat] \<and> t \<noteq> 0 \<and> hrv b (py_int (1 / t)) = Inl e \<longrightarrow>
            give_bpm_and_hrv hrv averaged t = Inl e"
      by blast
    from b binary_peaks_example have b': "b = [0, 1, 0, 1]" by simp
    from gr [rule_format, of "[0, 1, 0, 2, 0]" "1 / 30"] fp many t
    have gr': "\<forall>m. hrv b 30 = Inr m \<longrightarrow>
        (\<exists>res. give_bpm_and_hrv hrv [0, 1, 0, 2, 0] (1 / 30) = Inr res
            \<and> Stress_Score res = m ''HRV_SI'')"
      unfolding rate by blast
    from gx [rule_format, of "[0, 1, 0, 2, 0]" "1 / 30"] fp many t
    have gx': "\<forall>e. hrv b 30 = Inl e \<longrightarrow> give_bpm_and_hrv hrv [0, 1, 0, 2, 0] (1 / 30) = Inl e"
      unfolding rate by blast
    from r x gr' gx' show ?thesis unfolding b' by blast
  qed
  have a: "hrv_absent [0, 1, 0, 1] 30 = Inr Map.empty"
    and p: "hrv_present [0, 1, 0, 1] 30 = Inr [''HRV_SI'' \<mapsto> 2]"
    and f: "hrv_failing [0, 1, 0, 1] 30 = Inl ExternalError"
    by (simp_all add: hrv_absent_def hrv_present_def hrv_failing_def)
  have "calculate_stress_score hrv_absent [1, 3] 30 = Inr None"
    using facts [of hrv_absent] a by auto
  moreover have "calculate_stress_score hrv_present [1, 3] 30 = Inr (Some 2)"
    using facts [of hrv_present] p by auto
  moreover have "calculate_stress_score hrv_failing [1, 3] 30 = Inl ExternalError"
    using facts [of hrv_failing] f by auto
  moreover have "\<exists>res. give_bpm_and_hrv hrv_present [0, 1, 0, 2, 0] (1 / 30) = Inr res
      \<and> Stress_Score res = Some 2"
    using facts [of hrv_present] p by auto
  moreover have "give_bpm_and_hrv hrv_failing [0, 1, 0, 2, 0] (1 / 30) = Inl ExternalError"
    using facts [of hrv_failing] f by auto
  ultimately show ?thesis using ne srt binary_peaks_example fp by blast
qed

text \<open>
  C7 as stated fails with a capability that raises: the exception leaves
  \<^verbatim>\<open>calculate_stress_score\<close>, and \<^verbatim>\<open>give_bpm_and_hrv\<close> with it.
\<close>

theorem stress_estimator_raise_counterexample:
  "calculate_stress_score hrv_failing [1, 3] 30 = Inl ExternalError
   \<and> give_bpm_and_hrv hrv_failing [0, 1, 0, 2, 0] (1 / 30) = Inl ExternalError"
proof -
  have fp: "find_peaks [0, 1, 0, 2, 0] (r_min_peak [0, 1, 0, 2, 0]) = [1, 3]"
    by (simp add: find_peaks_def local_maxima_1d_example r_min_peak_def py_min_def py_max_def)
  have rr: "rr_intervals_of [1, 3] (1 / 30) = [1 / 15]"
    by (simp add: rr_intervals_of_def)
  have hrv: "calculate_hrv [1 / 15] = Inr \<lparr>SDNN = Num 0, RMSSD = NaN, pNN50 = Num 0\<rparr>"
    by (simp add: calculate_hrv_def np_std_def np_mean_def)
  have st: "calculate_stress_score hrv_failing [1, 3] 30 = Inl ExternalError"
    using binary_peaks_example by (simp add: calculate_stress_score_def hrv_failing_def)
  have "give_bpm_and_hrv hrv_failing [0, 1, 0, 2, 0] (1 / 30) = Inl ExternalError"
    using fp rr hrv st by (simp add: give_bpm_and_hrv_def py_int_def)
  with st show ?thesis by blast
qed

section \<open>Claims about the envelope extractor and the request handler\<close>

text \<open>
  C8, amended. For every window length above 0, \<^verbatim>\<open>process_signal\<close> equals its
  simplified version without the causal convolution, on every input and in every
  outcome. For every filtered signal of more than \<open>3 L\<close> samples (more than 21 for the
  window of 7; \<open>L \<ge> 2\<close>) it returns an envelope of the same length, the zero-phase
  moving average of the squared signal. For a filtered signal of at most \<open>3 L\<close> samples
  it returns nothing: \<^verbatim>\<open>filtfilt\<close> raises \<^verbatim>\<open>ValueError\<close>.
\<close>

theorem envelope_extractor_dead_convolution:
  assumes "0 < L"
  shows "process_signal butter y order high low fs L
      = process_signal_simplified butter y order high low fs L
    \<and> (\<forall>filtered. filter_all butter y fs order high low = Inr filtered
           \<and> 2 \<le> L \<and> 3 * L < length filtered \<longrightarrow>
          process_signal butter y order high low fs L
            = Inr (zero_phase_moving_average L (map (\<lambda>v. v ^ 2) filtered))
          \<and> length (zero_phase_moving_average L (map (\<lambda>v. v ^ 2) filtered))
              = length filtered)
    \<and> (\<forall>filtered. filter_all butter y fs order high low = Inr filtered
           \<and> length filtered \<le> 3 * L \<longrightarrow>
          process_signal butter y order high low fs L = Inl ValueError)"
proof (intro conjI allI impI)
  show "process_signal butter y order high low fs L
      = process_signal_simplified butter y order high low fs L"
  proof (cases "filter_all butter y fs order high low")
    case (Inl e)
    then show ?thesis by (simp add: process_signal_raises)
  next
    case (Inr filtered)
    with assms show ?thesis
      by (simp add: process_signal_filtered process_signal_simplified_filtered)
  qed
next
  fix filtered
  assume h: "filter_all butter y fs order high low = Inr filtered
      \<and> 2 \<le> L \<and> 3 * L < length filtered"
  then show "process_signal butter y order high low fs L
      = Inr (zero_phase_moving_average L (map (\<lambda>v. v ^ 2) filtered))"
    by (intro process_signal_long) simp_all
  from h have "3 * L < length (map (\<lambda>v. v ^ 2) filtered)" by simp
  then have "length (zero_phase_moving_average L (map (\<lambda>v. v ^ 2) filtered))
      = length (map (\<lambda>v. v ^ 2) filtered)"
    by (rule length_zero_phase_moving_average)
  then show "length (zero_phase_moving_average L (map (\<lambda>v. v ^ 2) filtered)) = length filtered"
    by simp
next
  fix filtered
  assume "filter_all butter y fs order high low = Inr filtered \<and> length filtered \<le> 3 * L"
  then have f: "filter_all butter y fs order high low = Inr filtered"
    and short: "length filtered \<le> 3 * L" by blast+
  from f assms short show "process_signal butter y order high low fs L = Inl ValueError"
    by (rule process_signal_short)
qed

text \<open>
  C8 on three signals. An impulse of 7 samples, window 2: the envelope
  \<open>0, 0, 1, 2, 1, 0, 0\<close> is symmetric about the impulse. A constant signal of 22 samples,
  window 7: the envelope is the constant. A constant signal of 20 samples, window 7:
  \<^verbatim>\<open>ValueError\<close>.
\<close>

theorem envelope_extractor_dead_convolution_witness:
  "(0 :: nat) < 2 \<and> (0 :: nat) < 7
   \<and> filter_all butter_identity [0, 0, 0, 2, 0, 0, 0] 248 1 10 100 = Inr [0, 0, 0, 2, 0, 0, 0]
   \<and> process_signal butter_identity [0, 0, 0, 2, 0, 0, 0] 1 10 100 248 2
       = Inr [0, 0, 1, 2, 1, 0, 0]
   \<and> process_signal_simplified butter_identity [0, 0, 0, 2, 0, 0, 0] 1 10 100 248 2
       = Inr [0, 0, 1, 2, 1, 0, 0]
   \<and> filter_all butter_sample (replicate 22 1) 248 5 10 100 = Inr (replicate 22 1)
   \<and> process_signal butter_sample (replicate 22 1) 5 10 100 248 7 = Inr (replicate 22 1)
   \<and> filter_all butter_sample (replicate 20 1) 248 5 10 100 = Inr (replicate 20 1)
   \<and> process_signal butter_sample (replicate 20 1) 5 10 100 248 7 = Inl ValueError"
proof -
  have L2: "(0 :: nat) < 2" and L7: "(0 :: nat) < 7" by simp_all
  have f7: "filter_all butter_identity [0, 0, 0, 2, 0, 0, 0] 248 1 10 100
      = Inr [0, 0, 0, 2, 0, 0, 0]"
    by (simp add: filter_all_butter_identity)
  have f22: "filter_all butter_sample (replicate 22 1) 248 5 10 100 = Inr (replicate 22 1)"
    by (rule filter_all_butter_sample_const) simp
  have f20: "filter_all butter_sample (replicate 20 1) 248 5 10 100 = Inr (replicate 20 1)"
    by (rule filter_all_butter_sample_const) simp
  note i2 = envelope_extractor_dead_convolution
    [OF L2, of butter_identity "[0, 0, 0, 2, 0, 0, 0]" 1 10 100 248]
  note i22 = envelope_extractor_dead_convolution
    [OF L7, of butter_sample "replicate 22 1" 5 10 100 248]
  note i20 = envelope_extractor_dead_convolution
    [OF L7, of butter_sample "replicate 20 1" 5 10 100 248]
  note i2_eq = i2 [THEN conjunct1]
  note i2_long = i2 [THEN conjunct2, THEN conjunct1, rule_format]
  note i22_long = i22 [THEN conjunct2, THEN conjunct1, rule_format]
  note i20_short = i20 [THEN conjunct2, THEN conjunct2, rule_format]
  have "process_signal butter_identity [0, 0, 0, 2, 0, 0, 0] 1 10 100 248 2
      = Inr (zero_phase_moving_average 2 (map (\<lambda>v. v ^ 2) [0, 0, 0, 2, 0, 0, 0]))"
    using i2_long [of "[0, 0, 0, 2, 0, 0, 0]"] f7 by simp
  then have p2: "process_signal butter_identity [0, 0, 0, 2, 0, 0, 0] 1 10 100 248 2
      = Inr [0, 0, 1, 2, 1, 0, 0]"
    by (simp add: zero_phase_moving_average_impulse)
  with i2_eq have s2: "process_signal_simplified butter_identity [0, 0, 0, 2, 0, 0, 0] 1 10 100 248 2
      = Inr [0, 0, 1, 2, 1, 0, 0]"
    by simp
  have "process_signal butter_sample (replicate 22 1) 5 10 100 248 7
      = Inr (zero_phase_moving_average 7 (replicate 22 1))"
    using i22_long [of "replicate 22 1"] f22 by simp
  then have p22: "process_signal butter_sample (replicate 22 1) 5 10 100 248 7
      = Inr (replicate 22 1)"
    by (simp add: zero_phase_moving_average_const)
  have p20: "process_signal butter_sample (replicate 20 1) 5 10 100 248 7 = Inl ValueError"
    using i20_short [of "replicate 20 1"] f20 by simp
  from L2 L7 f7 p2 s2 f22 p22 f20 p20 show ?thesis by blast
qed

text \<open>
  C8 as stated fails on a filtered signal of 20 samples: the two filters of
  \<^verbatim>\<open>filter_all\<close> accept it (more than 18 samples), the smoothing for the window of 7
  needs more than 21 and raises.
\<close>

theorem envelope_extractor_short_counterexample:
  "filter_all butter_sample (replicate 20 1) 248 5 10 100 = Inr (replicate 20 1)
   \<and> process_signal butter_sample (replicate 20 1) 5 10 100 248 7 = Inl ValueError"
proof -
  have f20: "filter_all butter_sample (replicate 20 1) 248 5 10 100 = Inr (replicate 20 1)"
    by (rule filter_all_butter_sample_const) simp
  then have "process_signal butter_sample (replicate 20 1) 5 10 100 248 7 = Inl ValueError"
    by (rule process_signal_short) simp_all
  with f20 show ?thesis by blast
qed

text \<open>
  C6, amended. A source that cannot be opened, and a source that opens and reports a
  frame count of zero, are answered with a failure object \<^verbatim>\<open>{"error": ...}\<close>, and
  nothing is raised. A colour signal too short for filtering is not caught: for a
  source that opens and reports frames, the handler raises whenever at most 200 frames
  are read (the trimmed signal is empty), and whenever at most 218 are read and the
  design routine returns six coefficients for the order 5, as the Butterworth design
  does (the trimmed signal has at most 18 samples).
\<close>

theorem handler_failures:
  "(\<not> isOpened (VideoCapture query) \<longrightarrow>
      get_beats_per_min VideoCapture butter hrv query =
        Inr (Failure ''Video file could not be opened. Please check the path.''))
   \<and> (isOpened (VideoCapture query)
        \<and> py_int (CAP_PROP_FRAME_COUNT (VideoCapture query)) = 0 \<longrightarrow>
      get_beats_per_min VideoCapture butter hrv query =
        Inr (Failure ''Video contains no frames.''))
   \<and> (isOpened (VideoCapture query)
        \<and> py_int (CAP_PROP_FRAME_COUNT (VideoCapture query)) \<noteq> 0
        \<and> length (frames (VideoCapture query)) \<le> 200 \<longrightarrow>
      (\<exists>e. get_beats_per_min VideoCapture butter hrv query = Inl e))
   \<and> (isOpened (VideoCapture query)
        \<and> py_int (CAP_PROP_FRAME_COUNT (VideoCapture query)) \<noteq> 0
        \<and> length (frames (VideoCapture query)) \<le> 218
        \<and> (\<forall>wn b a. butter 5 wn High = Inr (b, a) \<longrightarrow> length b = 6 \<and> length a = 6) \<longrightarrow>
      (\<exists>e. get_beats_per_min VideoCapture butter hrv query = Inl e))"
proof (intro conjI impI)
  assume "\<not> isOpened (VideoCapture query)"
  then show "get_beats_per_min VideoCapture butter hrv query =
      Inr (Failure ''Video file could not be opened. Please check the path.'')"
    by (simp add: get_beats_per_min_def)
next
  assume "isOpened (VideoCapture query)
      \<and> py_int (CAP_PROP_FRAME_COUNT (VideoCapture query)) = 0"
  then show "get_beats_per_min VideoCapture butter hrv query =
      Inr (Failure ''Video contains no frames.'')"
    by (simp add: get_beats_per_min_def Let_def)
next
  assume h: "isOpened (VideoCapture query)
      \<and> py_int (CAP_PROP_FRAME_COUNT (VideoCapture query)) \<noteq> 0
      \<and> length (frames (VideoCapture query)) \<le> 200"
  show "\<exists>e. get_beats_per_min VideoCapture butter hrv query = Inl e"
  proof (rule get_beats_per_min_short)
    from h show "isOpened (VideoCapture query)" by simp
    from h show "py_int (CAP_PROP_FRAME_COUNT (VideoCapture query)) \<noteq> 0" by simp
    fix R :: "real list" and b a :: "real list"
    assume "length R \<le> length (frames (VideoCapture query)) - 200"
    with h show "length R \<le> 3 * max (length a) (length b)" by simp
  qed
next
  assume h: "isOpened (VideoCapture query)
      \<and> py_int (CAP_PROP_FRAME_COUNT (VideoCapture query)) \<noteq> 0
      \<and> length (frames (VideoCapture query)) \<le> 218
      \<and> (\<forall>wn b a. butter 5 wn High = Inr (b, a) \<longrightarrow> length b = 6 \<and> length a = 6)"
  show "\<exists>e. get_beats_per_min VideoCapture butter hrv query = Inl e"
  proof (rule get_beats_per_min_short)
    from h show "isOpened (VideoCapture query)" by simp
    from h show "py_int (CAP_PROP_FRAME_COUNT (VideoCapture query)) \<noteq> 0" by simp
    fix R :: "real list" and b a :: "real list"
    assume R: "length R \<le> length (frames (VideoCapture query)) - 200"
      and d: "butter_highpass butter 10
          (real_of_int (8 * py_int (CAP_PROP_FPS (VideoCapture query) + 1))) 5 = Inr (b, a)"
    from d obtain wn where "butter 5 wn High = Inr (b, a)"
      using butter_highpass_design by blast
    with h have "length b = 6" "length a = 6" by blast+
    moreover from h have "length (frames (VideoCapture query)) \<le> 218" by simp
    ultimately show "length R \<le> 3 * max (length a) (length b)" using R by simp
  qed
qed

text \<open>
  C6 on three sources: one that cannot be opened, one that reports no frames, and one of
  a single frame.
\<close>

theorem handler_failures_witness:
  "\<not> isOpened (capture_missing ''clip.mp4'')
   \<and> get_beats_per_min capture_missing butter_sample hrv_absent ''clip.mp4'' =
       Inr (Failure ''Video file could not be opened. Please check the path.'')
   \<and> isOpened (capture_empty ''clip.mp4'')
   \<and> py_int (CAP_PROP_FRAME_COUNT (capture_empty ''clip.mp4'')) = 0
   \<and> get_beats_per_min capture_empty butter_sample hrv_absent ''clip.mp4'' =
       Inr (Failure ''Video contains no frames.'')
   \<and> isOpened (capture_one_frame ''clip.mp4'')
   \<and> py_int (CAP_PROP_FRAME_COUNT (capture_one_frame ''clip.mp4'')) \<noteq> 0
   \<and> length (frames (capture_one_frame ''clip.mp4'')) \<le> 200
   \<and> (\<exists>e. get_beats_per_min capture_one_frame butter_sample hrv_absent ''clip.mp4'' = Inl e)"
proof -
  have missing: "\<not> isOpened (capture_missing ''clip.mp4'')"
    by (simp add: capture_missing_def)
  have empty: "isOpened (capture_empty ''clip.mp4'')"
    "py_int (CAP_PROP_FRAME_COUNT (capture_empty ''clip.mp4'')) = 0"
    by (simp_all add: capture_empty_def py_int_def)
  have one: "isOpened (capture_one_frame ''clip.mp4'')"
    "py_int (CAP_PROP_FRAME_COUNT (capture_one_frame ''clip.mp4'')) \<noteq> 0"
    "length (frames (capture_one_frame ''clip.mp4'')) \<le> 200"
    "length (frames (capture_one_frame ''clip.mp4'')) \<le> 218"
    by (simp_all add: capture_one_frame_def py_int_def)
  have design: "\<forall>wn b a. butter_sample 5 wn High = Inr (b, a) \<longrightarrow> length b = 6 \<and> length a = 6"
    by (auto simp: butter_sample_def split: if_splits)
  have "get_beats_per_min capture_missing butter_sample hrv_absent ''clip.mp4'' =
      Inr (Failure ''Video file could not be opened. Please check the path.'')"
    using handler_failures [of capture_missing "''clip.mp4''" butter_sample hrv_absent] missing
    by blast
  moreover have "get_beats_per_min capture_empty butter_sample hrv_absent ''clip.mp4'' =
      Inr (Failure ''Video contains no frames.'')"
    using handler_failures [of capture_empty "''clip.mp4''" butter_sample hrv_absent] empty
    by blast
  moreover have "\<exists>e. get_beats_per_min capture_one_frame butter_sample hrv_absent ''clip.mp4'' = Inl e"
    using handler_failures [of capture_one_frame "''clip.mp4''" butter_sample hrv_absent]
      one(1,2,3) by blast
  moreover have "\<exists>e. get_beats_per_min capture_one_frame butter_sample hrv_absent ''clip.mp4'' = Inl e"
    using handler_failures [of capture_one_frame "''clip.mp4''" butter_sample hrv_absent]
      one(1,2,4) design by blast
  ultimately show ?thesis using missing empty one(1,2,3) by blast
qed

text \<open>
  C6 as stated fails on a source of a single frame: the trimmed signal is empty, and the
  \<^verbatim>\<open>ValueError\<close> of \<^verbatim>\<open>filtfilt\<close> leaves the handler.
\<close>

theorem handler_short_signal_counterexample:
  "get_beats_per_min capture_one_frame butter_sample hrv_absent ''clip.mp4'' = Inl ValueError"
proof -
  have roi: "roi_means [[(0, 0, 0)]] = Inr (0, 0, 0)"
    by (simp add: roi_means_def py_slice_def py_int_def Let_def)
  have ps: "py_slice [0 :: real] 100 (- 100) = []"
    by (simp add: py_slice_def)
  have hi: "butter_highpass butter_sample 10 248 5 = Inr (replicate 6 (1 / 6), 1 # replicate 5 0)"
    by (simp add: butter_highpass_def butter_sample_def)
  have "filtfilt (replicate 6 (1 / 6)) (1 # replicate 5 0) [] = Inl ValueError"
    by (intro filtfilt_short) simp
  with hi have "filter_all butter_sample [] 248 5 10 100 = Inl ValueError"
    by (simp add: filter_all_def)
  then have "process_signal butter_sample [] 5 10 100 248 7 = Inl ValueError"
    by (rule process_signal_raises(1))
  with roi ps show ?thesis
    by (simp add: get_beats_per_min_def capture_one_frame_def py_int_def Let_def)
qed

end
